theory Spec2Isabelle
  imports Complex_Main "HOL-Library.Sublist" "HOL-Library.Multiset"
begin

section \<open>IDX signal API: a shallow embedding of \<^verbatim>\<open>backend/app.py\<close>\<close>

text \<open>
  Conventions of the embedding.
  \<^item> A Python \<^verbatim>\<open>float\<close> is a \<^typ>\<open>real\<close>: arithmetic is exact, there is no rounding,
    overflow or infinity. The constants \<^verbatim>\<open>0.02\<close> and \<^verbatim>\<open>0.98\<close> are the
    rationals \<open>2/100\<close> and \<open>98/100\<close>.
  \<^item> A float that may be \<^verbatim>\<open>NaN\<close> (a cell of a pandas column) is a \<^typ>\<open>real option\<close>,
    \<open>None\<close> being \<^verbatim>\<open>NaN\<close>; a variable that may hold Python's \<^verbatim>\<open>None\<close> is an
    option as well.
  \<^item> A Python \<^verbatim>\<open>str\<close> is a list of Unicode code points (\<^typ>\<open>nat list\<close>).
  \<^item> An exception is a value of type \<open>error\<close>; a function that may raise returns
    \<open>error + 'a\<close>.
  \<^item> The clock, the download and the character tables of \<^verbatim>\<open>str\<close> are inputs of
    the functions that use them.
\<close>

type_synonym ustring = "nat list"

definition lit :: "string \<Rightarrow> ustring" where
  "lit s = map of_char s"

subsection \<open>The in-memory cache\<close>

definition CACHE_TTL_SECONDS :: int where
  "CACHE_TTL_SECONDS = 60 * 10"

text \<open>
  An entry \<^verbatim>\<open>{"ts": ..., "value": ...}\<close>. The stored value is any Python object,
  \<^verbatim>\<open>None\<close> included, hence an option.
\<close>

record 'v cache_item =
  item_ts :: int
  item_value :: "'v option"

type_synonym 'v cache = "ustring \<rightharpoonup> 'v cache_item"

text \<open>
  \<^verbatim>\<open>cache_get(key)\<close> at clock reading \<open>now\<close>: the returned Python value
  (\<open>None\<close> for \<^verbatim>\<open>None\<close>) and the dictionary afterwards. A stored item is a
  non-empty dict, so \<^verbatim>\<open>not item\<close> holds exactly when the key is missing.
\<close>

definition cache_get :: "int \<Rightarrow> ustring \<Rightarrow> 'v cache \<Rightarrow> 'v option \<times> 'v cache" where
  "cache_get now key c =
     (case c key of
        None \<Rightarrow> (None, c)
      | Some item \<Rightarrow>
          if now - item_ts item > CACHE_TTL_SECONDS then (None, c(key := None))
          else (item_value item, c))"

definition cache_set :: "int \<Rightarrow> ustring \<Rightarrow> 'v option \<Rightarrow> 'v cache \<Rightarrow> 'v cache" where
  "cache_set now key v c = c(key \<mapsto> \<lparr>item_ts = now, item_value = v\<rparr>)"


subsection \<open>Ticker normalisation\<close>

text \<open>
  \<^verbatim>\<open>str.strip()\<close> removes the leading and trailing characters that
  \<^verbatim>\<open>str.isspace\<close> accepts; \<^verbatim>\<open>str.upper()\<close> maps every character through Unicode's
  full upper-case mapping, which may yield several characters. Both tables belong to the
  Python runtime, so they are the arguments \<open>isspace\<close> and \<open>upper\<close>.
\<close>

definition str_strip :: "(nat \<Rightarrow> bool) \<Rightarrow> ustring \<Rightarrow> ustring" where
  "str_strip isspace s = rev (dropWhile isspace (rev (dropWhile isspace s)))"

definition str_upper :: "(nat \<Rightarrow> ustring) \<Rightarrow> ustring \<Rightarrow> ustring" where
  "str_upper upper s = concat (map upper s)"

definition startswith :: "ustring \<Rightarrow> ustring \<Rightarrow> bool" where
  "startswith s p = (take (length p) s = p)"

definition endswith :: "ustring \<Rightarrow> ustring \<Rightarrow> bool" where
  "endswith s p = (length p \<le> length s \<and> drop (length s - length p) s = p)"

definition to_jk_ticker :: "(nat \<Rightarrow> bool) \<Rightarrow> (nat \<Rightarrow> ustring) \<Rightarrow> ustring \<Rightarrow> ustring" where
  "to_jk_ticker isspace upper t0 =
     (let t = str_upper upper (str_strip isspace t0)
      in if startswith t (lit ''^'') then t
         else if endswith t (lit ''.JK'') then t
         else t @ lit ''.JK'')"

text \<open>
  What the idempotence of the normalisation needs from the two tables: upper-casing an
  upper-cased character changes nothing, the upper-case form of a non-space character is
  non-empty and free of spaces, and the suffix \<^verbatim>\<open>.JK\<close> is upper case and free of
  spaces.
\<close>

definition str_tables_ok :: "(nat \<Rightarrow> bool) \<Rightarrow> (nat \<Rightarrow> ustring) \<Rightarrow> bool" where
  "str_tables_ok isspace upper \<longleftrightarrow>
     (\<forall>c. str_upper upper (upper c) = upper c)
     \<and> (\<forall>c. \<not> isspace c \<longrightarrow> upper c \<noteq> [] \<and> (\<forall>d \<in> set (upper c). \<not> isspace d))
     \<and> str_upper upper (lit ''.JK'') = lit ''.JK''
     \<and> \<not> isspace (of_char CHR ''.'') \<and> \<not> isspace (of_char CHR ''K'')"

text \<open>The two tables restricted to ASCII, where Python's are known by heart.\<close>

definition ascii_isspace :: "nat \<Rightarrow> bool" where
  "ascii_isspace c = (c \<in> {9, 10, 11, 12, 13, 28, 29, 30, 31, 32})"

definition ascii_upper :: "nat \<Rightarrow> ustring" where
  "ascii_upper c = [if 97 \<le> c \<and> c \<le> 122 then c - 32 else c]"

subsection \<open>Errors and bars\<close>

text \<open>
  \<open>IndexError\<close> is what \<^verbatim>\<open>iloc[-1]\<close> raises on an empty frame, \<open>HTTPException\<close>
  carries its status code and detail, \<open>DownloadError\<close> stands for anything the data
  provider raises. \<open>NaNExtreme\<close> marks a branch of \<open>compute_signal\<close> that no input
  reaches (lemma \<open>compute_signal_Inl_iff\<close>).
\<close>

datatype error = IndexError | HTTPException nat ustring | DownloadError ustring | NaNExtreme

text \<open>
  One row of the frame that \<^verbatim>\<open>fetch_ohlcv\<close> returns. The rows with a missing date,
  open, high, low or close have been dropped there, the volume may still be \<^verbatim>\<open>NaN\<close>.
  A date is its day number; the text \<^verbatim>\<open>str(...)\<close> makes of it is not modelled.
\<close>

record bar =
  bar_date :: nat
  bar_open :: real
  bar_high :: real
  bar_low :: real
  bar_close :: real
  bar_volume :: "real option"

type_synonym series = "real option list"

subsection \<open>Indicators\<close>

text \<open>
  \<^verbatim>\<open>series.rolling(n).mean()\<close>: the window ending at position \<open>i\<close> holds the \<open>n\<close>
  values up to \<open>i\<close>; with the default \<^verbatim>\<open>min_periods = n\<close> the mean is \<^verbatim>\<open>NaN\<close> unless
  all \<open>n\<close> of them exist and none is \<^verbatim>\<open>NaN\<close>.
\<close>

definition window_mean :: "real option list \<Rightarrow> real option" where
  "window_mean w = map_option (\<lambda>vs. sum_list vs / real (length vs)) (those w)"

definition rolling_mean :: "nat \<Rightarrow> series \<Rightarrow> series" where
  "rolling_mean n xs =
     map (\<lambda>i. if i + 1 < n then None else window_mean (take n (drop (i + 1 - n) xs)))
       [0..<length xs]"

definition sma :: "series \<Rightarrow> nat \<Rightarrow> series" where
  "sma series n = rolling_mean n series"

definition fsub :: "real option \<Rightarrow> real option \<Rightarrow> real option" where
  "fsub a b = (case (a, b) of (Some x, Some y) \<Rightarrow> Some (x - y) | _ \<Rightarrow> None)"

text \<open>\<^verbatim>\<open>series.diff()\<close>: \<^verbatim>\<open>NaN\<close> at position 0, then \<open>s[i] - s[i-1]\<close>.\<close>

definition diff :: "series \<Rightarrow> series" where
  "diff xs = (case xs of [] \<Rightarrow> [] | _ # rest \<Rightarrow> None # map2 fsub rest xs)"

text \<open>
  \<^verbatim>\<open>down.replace(0, np.nan)\<close> is the test \<open>d = Some 0\<close>. The last division never has
  a zero denominator, since \<open>rs\<close> is never negative (lemmas \<open>rsi_nth\<close>,
  \<open>spec_up_nonneg\<close> and \<open>spec_down_nonneg\<close>).
\<close>

definition rsi :: "series \<Rightarrow> nat \<Rightarrow> series" where
  "rsi series n =
     (let delta = diff series;
          up = rolling_mean n (map (map_option (\<lambda>d. max d 0)) delta);
          down = rolling_mean n (map (map_option (\<lambda>d. - min d 0)) delta);
          rs = map2 (\<lambda>u d. case (u, if d = Some 0 then None else d) of
                               (Some a, Some b) \<Rightarrow> Some (a / b) | _ \<Rightarrow> None) up down
      in map (map_option (\<lambda>r. 100 - 100 / (1 + r))) rs)"

text \<open>\<^verbatim>\<open>close.shift()\<close>: every value moves one position down, \<^verbatim>\<open>NaN\<close> enters at 0.\<close>

definition shift :: "series \<Rightarrow> series" where
  "shift xs = (case xs of [] \<Rightarrow> [] | _ \<Rightarrow> None # butlast xs)"

text \<open>The row-wise \<^verbatim>\<open>max(axis=1)\<close> skips \<^verbatim>\<open>NaN\<close>, so the first row keeps \<open>high - low\<close>.\<close>

definition true_range :: "real option \<Rightarrow> bar \<Rightarrow> real" where
  "true_range prev_close b =
     (case prev_close of
        None \<Rightarrow> bar_high b - bar_low b
      | Some c \<Rightarrow> max (bar_high b - bar_low b) (max \<bar>bar_high b - c\<bar> \<bar>bar_low b - c\<bar>))"

definition atr :: "bar list \<Rightarrow> nat \<Rightarrow> series" where
  "atr df n =
     (let tr = map2 true_range (shift (map (Some \<circ> bar_close) df)) df
      in rolling_mean n (map Some tr))"

text \<open>\<^verbatim>\<open>Series.max()\<close> and \<^verbatim>\<open>Series.min()\<close>: \<^verbatim>\<open>NaN\<close> on an empty column.\<close>

definition series_max :: "real list \<Rightarrow> real option" where
  "series_max xs = (case xs of [] \<Rightarrow> None | x # rest \<Rightarrow> Some (fold max rest x))"

definition series_min :: "real list \<Rightarrow> real option" where
  "series_min xs = (case xs of [] \<Rightarrow> None | x # rest \<Rightarrow> Some (fold min rest x))"

text \<open>
  \<^verbatim>\<open>df.iloc[-(lookback + 1) : -1]\<close>: from position \<open>len - (lookback + 1)\<close>, or 0 when
  that is negative, up to the last row, which is left out.
\<close>

definition pivot_window :: "bar list \<Rightarrow> nat \<Rightarrow> bar list" where
  "pivot_window df lookback = butlast (drop (length df - (lookback + 1)) df)"

definition pivot_high :: "bar list \<Rightarrow> nat \<Rightarrow> real option" where
  "pivot_high df lookback =
     (if length df < lookback + 2 then series_max (map bar_high df)
      else series_max (map bar_high (pivot_window df lookback)))"

definition pivot_low :: "bar list \<Rightarrow> nat \<Rightarrow> real option" where
  "pivot_low df lookback =
     (if length df < lookback + 2 then series_min (map bar_low df)
      else series_min (map bar_low (pivot_window df lookback)))"

subsection \<open>The signal classifier\<close>

datatype setup_kind = NONE | BREAKOUT | PULLBACK_MA20

text \<open>
  The fixed texts of \<^verbatim>\<open>reason\<close> and \<^verbatim>\<open>note\<close>, one constructor each; a text that
  quotes a value carries the value.
\<close>

datatype message =
    TrendOK | CloseAboveResistance real | VolumeAboveAverage
  | NearMA20 | BullishCandle | NoSetup
  | RegimeUptrend | RegimeBelowMA50 | RegimeSharpDrop | RegimeUnavailable error

record risk_reward =
  risk_per_share :: real
  r_multiple_tp1 :: "real option"
  r_multiple_tp2 :: "real option"

record signal =
  sig_setup :: setup_kind
  sig_trend_ok :: bool
  sig_close :: real
  sig_ma20 :: real
  sig_ma50 :: real
  sig_resistance :: real
  sig_support :: real
  sig_volume :: real
  sig_volma20 :: real
  sig_entry :: "real option"
  sig_sl :: "real option"
  sig_tp1 :: "real option"
  sig_tp2 :: "real option"
  sig_rr :: "risk_reward option"
  sig_reason :: "message list"
  sig_asof :: nat

text \<open>The cell of a column in the last row; a column is as long as the frame.\<close>

definition at_last :: "series \<Rightarrow> real option" where
  "at_last col = (case col of [] \<Rightarrow> None | _ \<Rightarrow> last col)"

text \<open>
  The truth value Python gives an optional float: \<^verbatim>\<open>None\<close> and \<^verbatim>\<open>0.0\<close> are false.
\<close>

definition truthy :: "real option \<Rightarrow> bool" where
  "truthy x = (case x of None \<Rightarrow> False | Some v \<Rightarrow> v \<noteq> 0)"

text \<open>\<^verbatim>\<open>((tp - entry) / (entry - sl)) if tp else None\<close>\<close>

definition r_multiple :: "real option \<Rightarrow> real \<Rightarrow> real \<Rightarrow> real option" where
  "r_multiple tp entry sl =
     (case tp of
        None \<Rightarrow> None
      | Some t \<Rightarrow> if truthy tp then Some ((t - entry) / (entry - sl)) else None)"

text \<open>The block after \<^verbatim>\<open>rr = None\<close>, guarded by \<^verbatim>\<open>entry and sl and entry > sl\<close>.\<close>

definition risk_reward_of ::
  "real option \<Rightarrow> real option \<Rightarrow> real option \<Rightarrow> real option \<Rightarrow> risk_reward option" where
  "risk_reward_of entry sl tp1 tp2 =
     (case (entry, sl) of
        (Some e, Some s) \<Rightarrow>
          if truthy entry \<and> truthy sl \<and> e > s
          then Some \<lparr>risk_per_share = e - s,
                     r_multiple_tp1 = r_multiple tp1 e s,
                     r_multiple_tp2 = r_multiple tp2 e s\<rparr>
          else None
      | _ \<Rightarrow> None)"

text \<open>
  \<^verbatim>\<open>compute_signal\<close>. The column \<^verbatim>\<open>rsi14\<close> is computed there and never read, and
  computing it cannot raise, so it does not appear. \<open>pivot_high\<close> and \<open>pivot_low\<close> are
  \<^verbatim>\<open>NaN\<close> on an empty frame only, which \<^verbatim>\<open>iloc[-1]\<close> has refused before; the branch
  \<open>NaNExtreme\<close> stands for that case.
\<close>

definition compute_signal :: "bar list \<Rightarrow> error + signal" where
  "compute_signal df =
     (case df of
        [] \<Rightarrow> Inl IndexError
      | _ \<Rightarrow>
       (let lastb = last df;
            close = bar_close lastb;
            open_v = bar_open lastb;
            vol = (case bar_volume lastb of None \<Rightarrow> 0 | Some v \<Rightarrow> v);
            ma20 = (case at_last (sma (map (Some \<circ> bar_close) df) 20) of
                      None \<Rightarrow> close | Some v \<Rightarrow> v);
            ma50 = (case at_last (sma (map (Some \<circ> bar_close) df) 50) of
                      None \<Rightarrow> close | Some v \<Rightarrow> v);
            volma20 = (case at_last (sma (map bar_volume df) 20) of
                         None \<Rightarrow> vol | Some v \<Rightarrow> v);
            atr14v = (case at_last (atr df 14) of None \<Rightarrow> 0 | Some v \<Rightarrow> v)
        in case (pivot_high df 20, pivot_low df 20) of
             (Some resistance, Some support) \<Rightarrow>
               (let trend_ok = (close > ma50 \<and> ma20 > ma50);
                    breakout = (trend_ok \<and> close > resistance \<and> vol > volma20);
                    dist_ma20 = (if ma20 \<noteq> 0 then \<bar>close - ma20\<bar> / ma20 else 0);
                    pullback = (trend_ok \<and> dist_ma20 \<le> 2 / 100 \<and> close \<ge> open_v);
                    (setup, entry, sl, tp1, tp2, reason) =
                      (if breakout then
                         (let sl = (if atr14v > 0 then min support (close - 2 * atr14v)
                                    else support)
                          in (BREAKOUT, Some close, Some sl,
                              Some (close + (close - sl) * 1), Some (close + (close - sl) * 2),
                              [TrendOK, CloseAboveResistance resistance, VolumeAboveAverage]))
                       else if pullback then
                         (let sl = min support (ma20 * (98 / 100))
                          in (PULLBACK_MA20, Some close, Some sl,
                              Some resistance, Some (resistance + (resistance - sl)),
                              [TrendOK, NearMA20, BullishCandle]))
                       else (NONE, None, None, None, None, [NoSetup]))
                in Inr \<lparr>sig_setup = setup, sig_trend_ok = trend_ok, sig_close = close,
                        sig_ma20 = ma20, sig_ma50 = ma50, sig_resistance = resistance,
                        sig_support = support, sig_volume = vol, sig_volma20 = volma20,
                        sig_entry = entry, sig_sl = sl, sig_tp1 = tp1, sig_tp2 = tp2,
                        sig_rr = risk_reward_of entry sl tp1 tp2,
                        sig_reason = reason, sig_asof = bar_date lastb\<rparr>)
           | _ \<Rightarrow> Inl NaNExtreme))"

subsection \<open>The regime classifier\<close>

datatype regime_status = RISK_ON | RISK_OFF | NO_TRADE_DAY | NEUTRAL | UNKNOWN

record regime =
  reg_status :: regime_status
  reg_close :: "real option"
  reg_ma20 :: "real option"
  reg_ma50 :: "real option"
  reg_day_change_pct :: "real option"
  reg_atr14_pct :: "real option"
  reg_asof :: "nat option"
  reg_note :: "message list"
  reg_ticker :: ustring

text \<open>\<^verbatim>\<open>round(x, nd)\<close> on exact numbers: to the nearest multiple of \<open>10^-nd\<close>, a tie to the even one.\<close>

definition py_round :: "real \<Rightarrow> nat \<Rightarrow> real" where
  "py_round x nd =
     (let y = x * 10 ^ nd; f = \<lfloor>y\<rfloor>; d = y - of_int f
      in (if d < 1 / 2 then of_int f
          else if d > 1 / 2 then of_int f + 1
          else if even f then of_int f else of_int f + 1) / 10 ^ nd)"

text \<open>
  The two ratios of \<^verbatim>\<open>market_regime\<close>, as functions of the frame: the change of the
  close against the row before (against itself when there is one row only), and the
  14-row average true range over the close.
\<close>

definition regime_day_change :: "bar list \<Rightarrow> real" where
  "regime_day_change d =
     (let lastb = last d;
          prev = (if length d \<ge> 2 then d ! (length d - 2) else lastb);
          close = bar_close lastb
      in if bar_close prev \<noteq> 0 then (close - bar_close prev) / bar_close prev else 0)"

definition regime_atr_pct :: "bar list \<Rightarrow> real" where
  "regime_atr_pct d =
     (let close = bar_close (last d);
          atr14v = (case at_last (atr d 14) of None \<Rightarrow> 0 | Some v \<Rightarrow> v)
      in if close \<noteq> 0 then atr14v / close else 0)"

text \<open>
  The \<^verbatim>\<open>try\<close> block of \<^verbatim>\<open>market_regime\<close> from the frame on: \<^verbatim>\<open>d.iloc[-1]\<close>
  raises on an empty frame, nothing else does.
\<close>

definition market_regime_try :: "bar list \<Rightarrow> error + regime" where
  "market_regime_try d =
     (case d of
        [] \<Rightarrow> Inl IndexError
      | _ \<Rightarrow>
       (let lastb = last d;
            close = bar_close lastb;
            ma20 = (case at_last (sma (map (Some \<circ> bar_close) d) 20) of
                      None \<Rightarrow> close | Some v \<Rightarrow> v);
            ma50 = (case at_last (sma (map (Some \<circ> bar_close) d) 50) of
                      None \<Rightarrow> close | Some v \<Rightarrow> v);
            trend_on = (close > ma50 \<and> ma20 > ma50);
            trend_off = (close < ma50);
            day_change = regime_day_change d;
            atr_pct = regime_atr_pct d;
            (status, note) =
              (if trend_on then (RISK_ON, [RegimeUptrend])
               else if trend_off then (RISK_OFF, [RegimeBelowMA50])
               else (NEUTRAL, []));
            (status, note) =
              (if trend_off \<and> (atr_pct \<ge> 2 / 100 \<or> day_change \<le> - (2 / 100))
               then (NO_TRADE_DAY, [RegimeSharpDrop])
               else (status, note))
        in Inr \<lparr>reg_status = status, reg_close = Some close, reg_ma20 = Some ma20,
                reg_ma50 = Some ma50,
                reg_day_change_pct = Some (py_round (day_change * 100) 2),
                reg_atr14_pct = Some (py_round (atr_pct * 100) 2),
                reg_asof = Some (bar_date lastb), reg_note = note,
                reg_ticker = lit ''^JKSE''\<rparr>))"

text \<open>
  \<^verbatim>\<open>market_regime\<close>. Its argument is the outcome of
  \<^verbatim>\<open>fetch_ohlcv("^JKSE", days=260)\<close>: the frame, or the exception raised. The
  \<^verbatim>\<open>except Exception\<close> clause receives the exceptions of the fetch and of the
  block alike.
\<close>

definition market_regime :: "error + bar list \<Rightarrow> regime" where
  "market_regime fetched =
     (case (case fetched of Inl e \<Rightarrow> Inl e | Inr df \<Rightarrow> market_regime_try df) of
        Inr r \<Rightarrow> r
      | Inl e \<Rightarrow>
          \<lparr>reg_status = UNKNOWN, reg_close = None, reg_ma20 = None, reg_ma50 = None,
           reg_day_change_pct = None, reg_atr14_pct = None, reg_asof = None,
           reg_note = [RegimeUnavailable e], reg_ticker = lit ''^JKSE''\<rparr>)"

subsection \<open>The screener\<close>

record row =
  row_ticker :: ustring
  row_score :: int
  row_setup :: setup_kind
  row_close :: real
  row_resistance :: real
  row_support :: real
  row_asof :: nat
  row_reason :: "message list"

text \<open>The four \<^verbatim>\<open>if\<close> statements that add to \<^verbatim>\<open>score\<close>, in order.\<close>

definition score_of :: "signal \<Rightarrow> int" where
  "score_of sg =
     (let score = 0;
          score = (if sig_trend_ok sg then score + 2 else score);
          score = (if sig_setup sg = BREAKOUT then score + 3 else score);
          score = (if sig_setup sg = PULLBACK_MA20 then score + 2 else score);
          score = (if truthy (Some (sig_volume sg)) \<and> truthy (Some (sig_volma20 sg))
                      \<and> sig_volume sg > sig_volma20 sg
                   then score + 1 else score)
      in score)"

text \<open>
  One round of the loop over the tickers: \<open>None\<close> is the \<^verbatim>\<open>continue\<close> of the
  \<^verbatim>\<open>except\<close> clause. \<open>fetched\<close> is the outcome of \<^verbatim>\<open>fetch_ohlcv(t, days)\<close>.
\<close>

definition screen_ticker ::
  "(nat \<Rightarrow> bool) \<Rightarrow> (nat \<Rightarrow> ustring) \<Rightarrow> ustring \<Rightarrow> error + bar list \<Rightarrow> row option" where
  "screen_ticker isspace upper t fetched =
     (case fetched of
        Inl e \<Rightarrow> None
      | Inr df \<Rightarrow>
         (case compute_signal df of
            Inl e \<Rightarrow> None
          | Inr sg \<Rightarrow>
              Some \<lparr>row_ticker = to_jk_ticker isspace upper t, row_score = score_of sg,
                    row_setup = sig_setup sg, row_close = sig_close sg,
                    row_resistance = sig_resistance sg, row_support = sig_support sg,
                    row_asof = sig_asof sg, row_reason = sig_reason sg\<rparr>))"

fun screener_loop ::
  "(nat \<Rightarrow> bool) \<Rightarrow> (nat \<Rightarrow> ustring) \<Rightarrow> (ustring \<times> (error + bar list)) list \<Rightarrow> row list" where
  "screener_loop isspace upper [] = []"
| "screener_loop isspace upper ((t, fetched) # rest) =
     (case screen_ticker isspace upper t fetched of
        None \<Rightarrow> screener_loop isspace upper rest
      | Some r \<Rightarrow> r # screener_loop isspace upper rest)"

text \<open>
  \<^verbatim>\<open>list.sort(key=..., reverse=True)\<close>: Python's sort is stable, and with
  \<^verbatim>\<open>reverse=True\<close> elements of equal key still keep their order, which is a stable
  ascending sort on the negated key.
\<close>

definition py_sort_desc :: "('a \<Rightarrow> int) \<Rightarrow> 'a list \<Rightarrow> 'a list" where
  "py_sort_desc key xs = sort_key (\<lambda>x. - key x) xs"

definition screener_top :: "row list \<Rightarrow> row list" where
  "screener_top results = take 25 (py_sort_desc row_score results)"

record screener_response =
  resp_universe :: ustring
  resp_market_regime :: regime
  resp_count :: nat
  resp_top :: "row list"

text \<open>\<open>file\<close> is the list read from \<^verbatim>\<open>tickers_lq45.json\<close>.\<close>

definition load_universe :: "(nat \<Rightarrow> ustring) \<Rightarrow> 'a list \<Rightarrow> ustring \<Rightarrow> error + 'a list" where
  "load_universe upper file name =
     (if str_upper upper name \<noteq> lit ''LQ45''
      then Inl (HTTPException 400 (lit ''Universe hanya support: LQ45 (sementara)''))
      else Inr file)"

text \<open>
  \<^verbatim>\<open>api_screener\<close>. Every ticker of the file comes with the outcome of its fetch,
  \<open>benchmark\<close> is the outcome of the fetch of the index.
\<close>

definition api_screener ::
  "(nat \<Rightarrow> bool) \<Rightarrow> (nat \<Rightarrow> ustring) \<Rightarrow> (ustring \<times> (error + bar list)) list
     \<Rightarrow> error + bar list \<Rightarrow> ustring \<Rightarrow> error + screener_response" where
  "api_screener isspace upper file benchmark universe =
     (case load_universe upper file universe of
        Inl e \<Rightarrow> Inl e
      | Inr tickers \<Rightarrow>
         (let regime = market_regime benchmark;
              results = screener_loop isspace upper tickers
          in Inr \<lparr>resp_universe = str_upper upper universe,
                  resp_market_regime = regime,
                  resp_count = length results,
                  resp_top = screener_top results\<rparr>))"

subsection \<open>The relative-strength value as the specification words it\<close>

text \<open>
  The quantities the specification names, read off the series itself: the gain and the
  loss of position \<open>j\<close> against \<open>j - 1\<close>, their means \<open>up\<close> and \<open>down\<close> over the 14
  positions ending at \<open>i\<close>, and when the window at \<open>i\<close> is complete: 14 changes exist
  and none involves a missing value. \<open>val\<close> reads a cell; under a complete window no
  cell it reads is missing.
\<close>

definition val :: "real option \<Rightarrow> real" where
  "val x = (case x of None \<Rightarrow> 0 | Some v \<Rightarrow> v)"

definition spec_gain :: "series \<Rightarrow> nat \<Rightarrow> real" where
  "spec_gain s j = max (val (s ! j) - val (s ! (j - 1))) 0"

definition spec_loss :: "series \<Rightarrow> nat \<Rightarrow> real" where
  "spec_loss s j = max (val (s ! (j - 1)) - val (s ! j)) 0"

definition spec_up :: "series \<Rightarrow> nat \<Rightarrow> real" where
  "spec_up s i = sum_list (map (spec_gain s) [i - 13..<i + 1]) / 14"

definition spec_down :: "series \<Rightarrow> nat \<Rightarrow> real" where
  "spec_down s i = sum_list (map (spec_loss s) [i - 13..<i + 1]) / 14"

definition window_complete :: "series \<Rightarrow> nat \<Rightarrow> bool" where
  "window_complete s i \<longleftrightarrow> 14 \<le> i \<and> list_all (\<lambda>j. s ! j \<noteq> None) [i - 14..<i + 1]"

subsection \<open>Example series\<close>

text \<open>
  Concrete frames, with the results the classifiers compute on them, on which the theorems
  below are instantiated. \<open>flat\<close> is a bar without any movement.
\<close>

definition flat :: bar where
  "flat = \<lparr>bar_date = 0, bar_open = 1, bar_high = 1, bar_low = 1, bar_close = 1,
            bar_volume = Some 1\<rparr>"

text \<open>\<open>dated\<close> numbers the days of a frame, so that its dates increase strictly.\<close>

definition dated :: "bar list \<Rightarrow> bar list" where
  "dated bs = map (\<lambda>(i, b). b\<lparr>bar_date := i\<rparr>) (enumerate 0 bs)"

definition df_flat :: "bar list" where
  "df_flat = dated (replicate 60 flat)"

text \<open>A latest bar whose high is far above all others, after 22 bars and after one.\<close>

definition spike :: bar where
  "spike = \<lparr>bar_date = 0, bar_open = 1, bar_high = 9, bar_low = 1/2, bar_close = 2,
            bar_volume = Some 2\<rparr>"

definition df_spike :: "bar list" where
  "df_spike = dated (replicate 22 flat @ [spike])"

definition df_short :: "bar list" where
  "df_short = dated [flat, spike]"

definition sig_spike :: signal where
  "sig_spike = \<lparr>sig_setup = NONE, sig_trend_ok = False, sig_close = 2, sig_ma20 = 21 / 20,
      sig_ma50 = 2, sig_resistance = 1, sig_support = 1, sig_volume = 2, sig_volma20 = 21 / 20,
      sig_entry = None, sig_sl = None, sig_tp1 = None, sig_tp2 = None, sig_rr = None,
      sig_reason = [NoSetup], sig_asof = 22\<rparr>"

definition sig_short :: signal where
  "sig_short = \<lparr>sig_setup = NONE, sig_trend_ok = False, sig_close = 2, sig_ma20 = 2,
      sig_ma50 = 2, sig_resistance = 9, sig_support = 1 / 2, sig_volume = 2, sig_volma20 = 2,
      sig_entry = None, sig_sl = None, sig_tp1 = None, sig_tp2 = None, sig_rr = None,
      sig_reason = [NoSetup], sig_asof = 1\<rparr>"

text \<open>The benchmark falls by 10 percent on the latest of 50 bars.\<close>

definition drop_bar :: bar where
  "drop_bar = \<lparr>bar_date = 0, bar_open = 1, bar_high = 1, bar_low = 9 / 10,
      bar_close = 9 / 10, bar_volume = Some 3\<rparr>"

definition df_drop :: "bar list" where
  "df_drop = dated (replicate 49 flat @ [drop_bar])"

definition reg_drop :: regime where
  "reg_drop = \<lparr>reg_status = NO_TRADE_DAY, reg_close = Some (9 / 10),
      reg_ma20 = Some (199 / 200), reg_ma50 = Some (499 / 500),
      reg_day_change_pct = Some (- 10), reg_atr14_pct = Some (79 / 100),
      reg_asof = Some 49, reg_note = [RegimeSharpDrop],
      reg_ticker = lit ''^JKSE''\<rparr>"

text \<open>
  A breakout on the latest of 50 bars: \<open>df_breakout\<close> with a stop-loss at the support,
  \<open>df_sl0\<close> with 13 wide bars before it, so that twice the average true range equals
  the close and the stop-loss is 0.
\<close>

definition up_bar :: bar where
  "up_bar = \<lparr>bar_date = 0, bar_open = 1, bar_high = 2, bar_low = 1,
      bar_close = 2, bar_volume = Some 2\<rparr>"

definition df_breakout :: "bar list" where
  "df_breakout = dated (replicate 49 flat @ [up_bar])"

definition sig_breakout :: signal where
  "sig_breakout = \<lparr>sig_setup = BREAKOUT, sig_trend_ok = True, sig_close = 2,
      sig_ma20 = 21 / 20, sig_ma50 = 51 / 50, sig_resistance = 1, sig_support = 1,
      sig_volume = 2, sig_volma20 = 21 / 20, sig_entry = Some 2, sig_sl = Some 1,
      sig_tp1 = Some 3, sig_tp2 = Some 4,
      sig_rr = Some \<lparr>risk_per_share = 1, r_multiple_tp1 = Some 1, r_multiple_tp2 = Some 2\<rparr>,
      sig_reason = [TrendOK, CloseAboveResistance 1, VolumeAboveAverage],
      sig_asof = 49\<rparr>"


definition range_bar :: bar where
  "range_bar = flat\<lparr>bar_high := 8\<rparr>"

definition jump_bar :: bar where
  "jump_bar = \<lparr>bar_date = 0, bar_open = 1, bar_high = 15, bar_low = 1,
      bar_close = 15, bar_volume = Some 2\<rparr>"

definition df_sl0 :: "bar list" where
  "df_sl0 = dated (replicate 36 flat @ replicate 13 range_bar @ [jump_bar])"

definition sig_sl0 :: signal where
  "sig_sl0 = \<lparr>sig_setup = BREAKOUT, sig_trend_ok = True, sig_close = 15,
      sig_ma20 = 17 / 10, sig_ma50 = 32 / 25, sig_resistance = 8, sig_support = 1,
      sig_volume = 2, sig_volma20 = 21 / 20, sig_entry = Some 15, sig_sl = Some 0,
      sig_tp1 = Some 30, sig_tp2 = Some 45, sig_rr = None,
      sig_reason = [TrendOK, CloseAboveResistance 8, VolumeAboveAverage],
      sig_asof = 49\<rparr>"





text \<open>Two close series: one that rises and falls, one that only rises.\<close>

definition closes15 :: series where
  "closes15 = map Some [10, 11, 10, 12, 11, 13, 12, 14, 13, 15, 14, 16, 15, 17, 16]"

definition rising16 :: series where
  "rising16 = map Some [1, 2, 3, 4, 5, 6, 7, 8, 9, 10, 11, 12, 13, 14, 15, 16]"

section \<open>Properties\<close>

subsection \<open>The cache\<close>

text \<open>
  C7. After \<open>set(k, v)\<close> a \<open>get(k)\<close> at an age of at most 600 seconds returns \<open>v\<close> and
  leaves the dictionary alone; a \<open>get\<close> that finds an entry older than 600 seconds returns
  absent and removes exactly that entry; \<open>set\<close> replaces whatever was stored under the key
  and touches no other key; and \<open>get\<close> never changes a stored entry (so never its
  timestamp): every key either keeps its entry or, when it is the expired key, loses it.
\<close>

theorem cache_contract:
  "(now' - now \<le> 600 \<longrightarrow>
      cache_get now' k (cache_set now k v c) = (v, cache_set now k v c))
   \<and> (c k = Some item \<and> now - item_ts item > 600 \<longrightarrow>
      cache_get now k c = (None, c(k := None)))
   \<and> cache_set now k v c k = Some \<lparr>item_ts = now, item_value = v\<rparr>
   \<and> (k' \<noteq> k \<longrightarrow> cache_set now k v c k' = c k')
   \<and> (snd (cache_get now k c) k' = c k'
        \<or> (k' = k \<and> snd (cache_get now k c) k' = None
            \<and> (\<exists>it. c k = Some it \<and> now - item_ts it > 600)))"
proof -
  have fresh: "cache_get now' k (cache_set now k v c) = (v, cache_set now k v c)"
    if "now' - now \<le> 600"
    using that by (simp add: cache_get_def cache_set_def CACHE_TTL_SECONDS_def)
  have expired: "cache_get now k c = (None, c(k := None))"
    if "c k = Some item \<and> now - item_ts item > 600"
    using that by (simp add: cache_get_def CACHE_TTL_SECONDS_def)
  have overwrite: "cache_set now k v c k = Some \<lparr>item_ts = now, item_value = v\<rparr>"
    by (simp add: cache_set_def)
  have frame: "cache_set now k v c k' = c k'" if "k' \<noteq> k"
    using that by (simp add: cache_set_def)
  have untouched: "snd (cache_get now k c) k' = c k'
        \<or> (k' = k \<and> snd (cache_get now k c) k' = None
            \<and> (\<exists>it. c k = Some it \<and> now - item_ts it > 600))"
    by (cases "c k") (auto simp: cache_get_def CACHE_TTL_SECONDS_def)
  show ?thesis using fresh expired overwrite frame untouched by blast
qed

theorem cache_contract_witness:
  "cache_get 1600 (lit ''k'') (cache_set 1000 (lit ''k'') (Some (7::nat)) Map.empty)
     = (Some 7, cache_set 1000 (lit ''k'') (Some 7) Map.empty)
   \<and> fst (cache_get 1601 (lit ''k'') (cache_set 1000 (lit ''k'') (Some (7::nat)) Map.empty)) = None
   \<and> snd (cache_get 1601 (lit ''k'') (cache_set 1000 (lit ''k'') (Some (7::nat)) Map.empty)) (lit ''k'') = None
   \<and> cache_set 2000 (lit ''k'') (Some 8) (cache_set 1000 (lit ''k'') (Some (7::nat)) Map.empty) (lit ''k'')
       = Some \<lparr>item_ts = 2000, item_value = Some 8\<rparr>"
  using cache_contract [of 1600 1000 "lit ''k''" "Some (7::nat)" Map.empty
      "\<lparr>item_ts = 1000, item_value = Some 7\<rparr>" "lit ''k''"]
    cache_contract [of 1601 1000 "lit ''k''" "Some (8::nat)"
      "cache_set 1000 (lit ''k'') (Some (7::nat)) Map.empty"
      "\<lparr>item_ts = 1000, item_value = Some 7\<rparr>" "lit ''k''"]
  by (simp add: cache_get_def cache_set_def CACHE_TTL_SECONDS_def)

subsection \<open>Ticker normalisation\<close>

lemma strip_ends:
  assumes "str_strip sp s \<noteq> []"
  shows "\<not> sp (hd (str_strip sp s)) \<and> \<not> sp (last (str_strip sp s))"
proof -
  define a where "a = dropWhile sp s"
  define b where "b = dropWhile sp (rev a)"
  have t: "str_strip sp s = rev b" by (simp add: str_strip_def a_def b_def)
  with assms have bne: "b \<noteq> []" by simp
  then have hb: "\<not> sp (hd b)" unfolding b_def by (rule hd_dropWhile)
  have ane: "a \<noteq> []" using bne by (auto simp: b_def)
  then have ha: "\<not> sp (hd a)" unfolding a_def by (rule hd_dropWhile)
  obtain p where p: "rev a = p @ b"
    unfolding b_def by (metis takeWhile_dropWhile_id)
  have "last b = last (rev a)" using p bne by simp
  also have "\<dots> = hd a" using ane by (simp add: last_rev)
  finally have lb: "last b = hd a" .
  show ?thesis using t bne hb ha lb by (simp add: hd_rev last_rev)
qed

lemma strip_id:
  assumes "s = [] \<or> (\<not> sp (hd s) \<and> \<not> sp (last s))"
  shows "str_strip sp s = s"
proof (cases "s = []")
  case True then show ?thesis by (simp add: str_strip_def)
next
  case False
  with assms have h: "\<not> sp (hd s)" and l: "\<not> sp (last s)" by auto
  have 1: "dropWhile sp s = s" using False h by (cases s) auto
  have 2: "dropWhile sp (rev s) = rev s" using False l by (cases "rev s") (auto simp: last_rev hd_rev dest: arg_cong[where f=hd])
  show ?thesis by (simp add: str_strip_def 1 2)
qed

lemma upper_append: "str_upper up (xs @ ys) = str_upper up xs @ str_upper up ys"
  by (simp add: str_upper_def)

lemma upper_idem:
  assumes "\<forall>c. str_upper up (up c) = up c"
  shows "str_upper up (str_upper up s) = str_upper up s"
proof (induction s)
  case Nil show ?case by (simp add: str_upper_def)
next
  case (Cons x xs)
  have "str_upper up (x # xs) = up x @ str_upper up xs" by (simp add: str_upper_def)
  then show ?case using Cons assms by (simp add: upper_append)
qed

lemma upper_ends:
  assumes ok: "\<forall>c. \<not> sp c \<longrightarrow> up c \<noteq> [] \<and> (\<forall>d \<in> set (up c). \<not> sp d)"
    and ne: "s \<noteq> []" and h: "\<not> sp (hd s)" and l: "\<not> sp (last s)"
  shows "str_upper up s \<noteq> [] \<and> \<not> sp (hd (str_upper up s)) \<and> \<not> sp (last (str_upper up s))"
proof -
  obtain x r where s1: "s = x # r" using ne by (cases s) auto
  obtain r' y where s2: "s = r' @ [y]" using ne by (cases s rule: rev_cases) auto
  have x: "up x \<noteq> []" "\<forall>d \<in> set (up x). \<not> sp d" using ok h s1 by auto
  have y: "up y \<noteq> []" "\<forall>d \<in> set (up y). \<not> sp d" using ok l s2 by auto
  have u1: "str_upper up s = up x @ str_upper up r" by (simp add: s1 str_upper_def)
  have u2: "str_upper up s = str_upper up r' @ up y" by (simp add: s2 str_upper_def)
  have "hd (str_upper up s) = hd (up x)" using u1 x by simp
  moreover have "last (str_upper up s) = last (up y)" using u2 y by simp
  moreover have "str_upper up s \<noteq> []" using u1 x by simp
  ultimately show ?thesis using x y by (metis hd_in_set last_in_set)
qed

lemma norm_fix:
  fixes x :: ustring
  assumes ok: "str_tables_ok sp up"
  defines "t \<equiv> str_upper up (str_strip sp x)"
  shows "str_strip sp t = t" "str_upper up t = t"
    "t \<noteq> [] \<Longrightarrow> \<not> sp (hd t)"
proof -
  have ok2: "\<forall>c. \<not> sp c \<longrightarrow> up c \<noteq> [] \<and> (\<forall>d \<in> set (up c). \<not> sp d)"
    and ok1: "\<forall>c. str_upper up (up c) = up c"
    using ok by (auto simp: str_tables_ok_def)
  show "str_upper up t = t" unfolding t_def by (rule upper_idem[OF ok1])
  have ends: "t = [] \<or> (\<not> sp (hd t) \<and> \<not> sp (last t))"
  proof (cases "str_strip sp x = []")
    case True then show ?thesis by (simp add: t_def str_upper_def)
  next
    case False
    from strip_ends[OF False] upper_ends[OF ok2 False] show ?thesis by (simp add: t_def)
  qed
  then show "str_strip sp t = t" by (rule strip_id)
  show "t \<noteq> [] \<Longrightarrow> \<not> sp (hd t)" using ends by auto
qed

lemma ascii_tables_ok: "str_tables_ok ascii_isspace ascii_upper"
  by (auto simp: str_tables_ok_def ascii_isspace_def ascii_upper_def str_upper_def lit_def)


lemma to_jk_ticker_idempotent_tables:
  assumes ok: "str_tables_ok isspace upper"
  shows "to_jk_ticker isspace upper (to_jk_ticker isspace upper x) = to_jk_ticker isspace upper x"
proof -
  define t where "t = str_upper upper (str_strip isspace x)"
  note fx = norm_fix[OF ok, of x, folded t_def]
  have jk: "str_upper upper (lit ''.JK'') = lit ''.JK''"
    and dot: "\<not> isspace 46" and kk: "\<not> isspace 75"
    using ok by (auto simp: str_tables_ok_def)
  consider (a) "startswith t (lit ''^'')"
    | (b) "\<not> startswith t (lit ''^'')" "endswith t (lit ''.JK'')"
    | (c) "\<not> startswith t (lit ''^'')" "\<not> endswith t (lit ''.JK'')" by blast
  then show ?thesis
  proof cases
    case a
    then show ?thesis using fx by (simp add: to_jk_ticker_def t_def[symmetric] Let_def)
  next
    case b
    then show ?thesis using fx by (simp add: to_jk_ticker_def t_def[symmetric] Let_def)
  next
    case c
    define t' where "t' = t @ lit ''.JK''"
    have r: "to_jk_ticker isspace upper x = t'"
      using c by (simp add: to_jk_ticker_def t_def[symmetric] Let_def t'_def)
    have hd': "\<not> isspace (hd t')"
      using fx(3) dot by (cases t) (auto simp: t'_def lit_def)
    have la': "\<not> isspace (last t')" using kk by (simp add: t'_def lit_def)
    have s': "str_strip isspace t' = t'" using hd' la' by (intro strip_id) simp
    have u': "str_upper upper t' = t'" using fx(2) jk by (simp add: t'_def upper_append)
    have ns: "\<not> startswith t' (lit ''^'')"
      using c(1) by (cases t) (auto simp: startswith_def t'_def lit_def)
    have es: "endswith t' (lit ''.JK'')" by (simp add: endswith_def t'_def lit_def)
    show ?thesis unfolding r using s' u' ns es by (simp add: to_jk_ticker_def Let_def)
  qed
qed

text \<open>
  C8. Ticker normalisation is idempotent: normalising a normalised ticker returns it
  unchanged, for every string of code points. This holds with the ASCII tables of
  \<^verbatim>\<open>isspace\<close> and \<^verbatim>\<open>upper\<close>, and with every pair of tables in which upper case is
  stable and never produces or loses white space at the ends (\<open>str_tables_ok\<close>), as
  Python's Unicode tables are. With the ASCII tables \<^verbatim>\<open>bbri\<close>, \<^verbatim>\<open>^jkse\<close> and
  \<^verbatim>\<open>BBRI.JK\<close> normalise to \<^verbatim>\<open>BBRI.JK\<close>, \<^verbatim>\<open>^JKSE\<close> and \<^verbatim>\<open>BBRI.JK\<close>.
\<close>

theorem to_jk_ticker_idempotent:
  "to_jk_ticker ascii_isspace ascii_upper (to_jk_ticker ascii_isspace ascii_upper x)
     = to_jk_ticker ascii_isspace ascii_upper x
   \<and> (str_tables_ok isspace upper \<longrightarrow>
        to_jk_ticker isspace upper (to_jk_ticker isspace upper x) = to_jk_ticker isspace upper x)"
proof
  show "to_jk_ticker ascii_isspace ascii_upper (to_jk_ticker ascii_isspace ascii_upper x)
     = to_jk_ticker ascii_isspace ascii_upper x"
    using ascii_tables_ok by (rule to_jk_ticker_idempotent_tables)
  show "str_tables_ok isspace upper \<longrightarrow>
        to_jk_ticker isspace upper (to_jk_ticker isspace upper x) = to_jk_ticker isspace upper x"
    by (simp add: to_jk_ticker_idempotent_tables)
qed

theorem to_jk_ticker_idempotent_witness:
  "str_tables_ok ascii_isspace ascii_upper
   \<and> to_jk_ticker ascii_isspace ascii_upper (to_jk_ticker ascii_isspace ascii_upper (lit ''bbri''))
       = to_jk_ticker ascii_isspace ascii_upper (lit ''bbri'')
   \<and> to_jk_ticker ascii_isspace ascii_upper (lit ''bbri'') = lit ''BBRI.JK''
   \<and> to_jk_ticker ascii_isspace ascii_upper (lit ''^jkse'') = lit ''^JKSE''
   \<and> to_jk_ticker ascii_isspace ascii_upper (lit ''BBRI.JK'') = lit ''BBRI.JK''
   \<and> to_jk_ticker ascii_isspace ascii_upper (lit '' bbri  '') = lit ''BBRI.JK''"
proof -
  have ex: "to_jk_ticker ascii_isspace ascii_upper (lit ''bbri'') = lit ''BBRI.JK''"
    "to_jk_ticker ascii_isspace ascii_upper (lit ''^jkse'') = lit ''^JKSE''"
    "to_jk_ticker ascii_isspace ascii_upper (lit ''BBRI.JK'') = lit ''BBRI.JK''"
    "to_jk_ticker ascii_isspace ascii_upper (lit '' bbri  '') = lit ''BBRI.JK''"
    by (simp_all add: to_jk_ticker_def lit_def str_upper_def str_strip_def ascii_isspace_def
        ascii_upper_def startswith_def endswith_def)
  show ?thesis
    using to_jk_ticker_idempotent [of "lit ''bbri''" ascii_isspace ascii_upper] ascii_tables_ok ex
    by simp
qed

subsection \<open>Resistance and support\<close>

lemma fold_max_Max: "fold max rest (x::real) = Max (set (x # rest))"
  by (simp only: Max.set_eq_fold)

lemma fold_min_Min: "fold min rest (x::real) = Min (set (x # rest))"
  by (simp only: Min.set_eq_fold)

lemma series_max_eq: "series_max xs = (if xs = [] then None else Some (Max (set xs)))"
  by (cases xs) (simp_all add: series_max_def fold_max_Max del: set_simps)

lemma series_min_eq: "series_min xs = (if xs = [] then None else Some (Min (set xs)))"
  by (cases xs) (simp_all add: series_min_def fold_min_Min del: set_simps)

lemma pivot_window_set:
  assumes "22 \<le> length df"
  shows "set (pivot_window df 20) = (\<lambda>i. df ! i) ` {length df - 21 ..< length df - 1}"
    and "pivot_window df 20 \<noteq> []"
proof -
  have w: "pivot_window df 20 = take 20 (drop (length df - 21) df)"
    using assms by (simp add: pivot_window_def butlast_conv_take)
  have len: "length (pivot_window df 20) = 20" using assms by (simp add: w)
  show "pivot_window df 20 \<noteq> []" using len by auto
  define d where "d = length df - 21"
  have d20: "d + 20 = length df - 1" "d + 20 \<le> length df" using assms by (auto simp: d_def)
  have "set (pivot_window df 20) = (!) (drop d df) ` {0..<20}"
    using nth_image[of 20 "drop d df"] d20 by (simp add: w d_def)
  also have "\<dots> = (\<lambda>k. df ! (d + k)) ` {0..<20}"
    using d20 by (intro image_cong) auto
  also have "\<dots> = (\<lambda>i. df ! i) ` ((+) d ` {0..<20})"
    by (simp only: image_image)
  also have "(+) d ` {0..<20} = {d..<d + 20}"
    using image_add_atLeastLessThan'[of d 0 20] by (simp add: add.commute)
  also have "{d..<d + 20} = {length df - 21 ..< length df - 1}"
    unfolding d20(1) by (simp add: d_def)
  finally show "set (pivot_window df 20) = (\<lambda>i. df ! i) ` {length df - 21 ..< length df - 1}" .
qed

lemma pivot_high_eq:
  "pivot_high df 20 =
     (if df = [] then None
      else if length df < 22 then Some (Max (bar_high ` set df))
      else Some (Max ((\<lambda>i. bar_high (df ! i)) ` {length df - 21 ..< length df - 1})))"
proof (cases "length df < 22")
  case True
  then show ?thesis by (simp add: pivot_high_def series_max_eq)
next
  case False
  then have l: "22 \<le> length df" by simp
  from pivot_window_set[OF l] have
    "set (map bar_high (pivot_window df 20)) = (\<lambda>i. bar_high (df ! i)) ` {length df - 21 ..< length df - 1}"
    by (simp add: image_image)
  then show ?thesis using l pivot_window_set(2)[OF l]
    by (auto simp: pivot_high_def series_max_eq)
qed

lemma pivot_low_eq:
  "pivot_low df 20 =
     (if df = [] then None
      else if length df < 22 then Some (Min (bar_low ` set df))
      else Some (Min ((\<lambda>i. bar_low (df ! i)) ` {length df - 21 ..< length df - 1})))"
proof (cases "length df < 22")
  case True
  then show ?thesis by (simp add: pivot_low_def series_min_eq)
next
  case False
  then have l: "22 \<le> length df" by simp
  from pivot_window_set[OF l] have
    "set (map bar_low (pivot_window df 20)) = (\<lambda>i. bar_low (df ! i)) ` {length df - 21 ..< length df - 1}"
    by (simp add: image_image)
  then show ?thesis using l pivot_window_set(2)[OF l]
    by (auto simp: pivot_low_def series_min_eq)
qed

lemma compute_signal_eq:
  fixes df :: "bar list" and close vol ma20 ma50 volma20 atr14v sl_b sl_p :: real
  assumes ne: "df \<noteq> []" and r: "pivot_high df 20 = Some resistance"
    and l: "pivot_low df 20 = Some support"
  assumes close_def: "close = bar_close (last df)"
  assumes vol_def: "vol = (case bar_volume (last df) of None \<Rightarrow> 0 | Some v \<Rightarrow> v)"
  assumes ma20_def: "ma20 = (case at_last (sma (map (Some \<circ> bar_close) df) 20) of None \<Rightarrow> close | Some v \<Rightarrow> v)"
  assumes ma50_def: "ma50 = (case at_last (sma (map (Some \<circ> bar_close) df) 50) of None \<Rightarrow> close | Some v \<Rightarrow> v)"
  assumes volma20_def: "volma20 = (case at_last (sma (map bar_volume df) 20) of None \<Rightarrow> vol | Some v \<Rightarrow> v)"
  assumes atr14v_def: "atr14v = (case at_last (atr df 14) of None \<Rightarrow> 0 | Some v \<Rightarrow> v)"
  assumes trend_ok_def: "trend_ok = (close > ma50 \<and> ma20 > ma50)"
  assumes breakout_def: "breakout = (trend_ok \<and> close > resistance \<and> vol > volma20)"
  assumes pullback_def: "pullback = (trend_ok \<and> (if ma20 \<noteq> 0 then \<bar>close - ma20\<bar> / ma20 else 0) \<le> 2 / 100
      \<and> close \<ge> bar_open (last df))"
  assumes sl_b_def: "sl_b = (if atr14v > 0 then min support (close - 2 * atr14v) else support)"
  assumes sl_p_def: "sl_p = min support (ma20 * (98 / 100))"
  assumes entry_def: "entry = (if breakout \<or> pullback then Some close else None)"
  assumes sl_def: "sl = (if breakout then Some sl_b else if pullback then Some sl_p else None)"
  assumes tp1_def: "tp1 = (if breakout then Some (close + (close - sl_b) * 1)
                    else if pullback then Some resistance else None)"
  assumes tp2_def: "tp2 = (if breakout then Some (close + (close - sl_b) * 2)
                    else if pullback then Some (resistance + (resistance - sl_p)) else None)"
  shows "compute_signal df =
     Inr \<lparr>sig_setup = (if breakout then BREAKOUT else if pullback then PULLBACK_MA20 else NONE),
          sig_trend_ok = trend_ok, sig_close = close, sig_ma20 = ma20, sig_ma50 = ma50,
          sig_resistance = resistance, sig_support = support, sig_volume = vol,
          sig_volma20 = volma20, sig_entry = entry, sig_sl = sl, sig_tp1 = tp1, sig_tp2 = tp2,
          sig_rr = risk_reward_of entry sl tp1 tp2,
          sig_reason = (if breakout then [TrendOK, CloseAboveResistance resistance, VolumeAboveAverage]
                        else if pullback then [TrendOK, NearMA20, BullishCandle] else [NoSetup]),
          sig_asof = bar_date (last df)\<rparr>"
proof -
  obtain b bs where df: "df = b # bs" using ne by (cases df) auto
  have unf: "compute_signal df =
      (case (if breakout then (BREAKOUT, Some close, Some sl_b,
                              Some (close + (close - sl_b) * 1), Some (close + (close - sl_b) * 2),
                              [TrendOK, CloseAboveResistance resistance, VolumeAboveAverage])
             else if pullback then (PULLBACK_MA20, Some close, Some sl_p,
                              Some resistance, Some (resistance + (resistance - sl_p)),
                              [TrendOK, NearMA20, BullishCandle])
             else (NONE, None, None, None, None, [NoSetup])) of
         (setup, entry, sl, tp1, tp2, reason) \<Rightarrow>
           Inr \<lparr>sig_setup = setup, sig_trend_ok = trend_ok, sig_close = close,
                        sig_ma20 = ma20, sig_ma50 = ma50, sig_resistance = resistance,
                        sig_support = support, sig_volume = vol, sig_volma20 = volma20,
                        sig_entry = entry, sig_sl = sl, sig_tp1 = tp1, sig_tp2 = tp2,
                        sig_rr = risk_reward_of entry sl tp1 tp2,
                        sig_reason = reason, sig_asof = bar_date (last df)\<rparr>)"
    unfolding compute_signal_def Let_def r l
    unfolding close_def vol_def ma20_def ma50_def volma20_def atr14v_def trend_ok_def
      breakout_def pullback_def sl_b_def sl_p_def
    by (subst (1) df) (simp only: list.case prod.case option.case)
  show ?thesis
  proof (cases breakout)
    case True
    then show ?thesis unfolding unf entry_def sl_def tp1_def tp2_def by (simp only: if_True prod.case simp_thms)
  next
    case False
    note nb = this
    show ?thesis
    proof (cases pullback)
      case True
      then show ?thesis using nb unfolding unf entry_def sl_def tp1_def tp2_def by (simp only: if_True if_False prod.case simp_thms)
    next
      case False
      then show ?thesis using nb unfolding unf entry_def sl_def tp1_def tp2_def by (simp only: if_True if_False prod.case simp_thms)
    qed
  qed
qed


lemma pivots_nonempty:
  assumes "df \<noteq> []"
  shows "\<exists>r l. pivot_high df 20 = Some r \<and> pivot_low df 20 = Some l"
  using assms by (cases "length df < 22") (auto simp: pivot_high_eq pivot_low_eq)

lemma compute_signal_Inl_iff: "(\<exists>e. compute_signal df = Inl e) \<longleftrightarrow> df = []"
proof
  assume "\<exists>e. compute_signal df = Inl e"
  then obtain e where e: "compute_signal df = Inl e" ..
  show "df = []"
  proof (rule ccontr)
    assume ne: "df \<noteq> []"
    from pivots_nonempty[OF ne] obtain r l
      where "pivot_high df 20 = Some r" "pivot_low df 20 = Some l" by blast
    from compute_signal_eq[OF ne this refl refl refl refl refl refl refl refl refl refl refl
        refl refl refl refl] e
    show False by simp
  qed
next
  assume "df = []" then show "\<exists>e. compute_signal df = Inl e" by (simp add: compute_signal_def)
qed

lemma compute_signal_fields:
  assumes "compute_signal df = Inr s"
  shows "df \<noteq> []" "pivot_high df 20 = Some (sig_resistance s)" "pivot_low df 20 = Some (sig_support s)"
    "sig_close s = bar_close (last df)"
    "sig_volume s = (case bar_volume (last df) of None \<Rightarrow> 0 | Some v \<Rightarrow> v)"
    "sig_ma20 s = (case at_last (sma (map (Some \<circ> bar_close) df) 20) of
                     None \<Rightarrow> bar_close (last df) | Some v \<Rightarrow> v)"
    "sig_ma50 s = (case at_last (sma (map (Some \<circ> bar_close) df) 50) of
                     None \<Rightarrow> bar_close (last df) | Some v \<Rightarrow> v)"
    "sig_volma20 s = (case at_last (sma (map bar_volume df) 20) of
                        None \<Rightarrow> sig_volume s | Some v \<Rightarrow> v)"
    "sig_trend_ok s = (sig_close s > sig_ma50 s \<and> sig_ma20 s > sig_ma50 s)"
    "sig_setup s =
       (if sig_trend_ok s \<and> sig_close s > sig_resistance s \<and> sig_volume s > sig_volma20 s
        then BREAKOUT
        else if sig_trend_ok s
                \<and> (if sig_ma20 s \<noteq> 0 then \<bar>sig_close s - sig_ma20 s\<bar> / sig_ma20 s else 0) \<le> 2 / 100
                \<and> sig_close s \<ge> bar_open (last df)
        then PULLBACK_MA20 else NONE)"
    "sig_entry s = (if sig_setup s = NONE then None else Some (sig_close s))"
    "sig_rr s = risk_reward_of (sig_entry s) (sig_sl s) (sig_tp1 s) (sig_tp2 s)"
proof -
  show ne: "df \<noteq> []" using assms by (auto simp: compute_signal_def)
  from pivots_nonempty[OF ne] obtain r l
    where rl: "pivot_high df 20 = Some r" "pivot_low df 20 = Some l" by blast
  define close where "close = bar_close (last df)"
  define vol where "vol = (case bar_volume (last df) of None \<Rightarrow> 0 | Some v \<Rightarrow> v)"
  define ma20 where "ma20 = (case at_last (sma (map (Some \<circ> bar_close) df) 20) of None \<Rightarrow> close | Some v \<Rightarrow> v)"
  define ma50 where "ma50 = (case at_last (sma (map (Some \<circ> bar_close) df) 50) of None \<Rightarrow> close | Some v \<Rightarrow> v)"
  define volma20 where "volma20 = (case at_last (sma (map bar_volume df) 20) of None \<Rightarrow> vol | Some v \<Rightarrow> v)"
  define atr14v where "atr14v = (case at_last (atr df 14) of None \<Rightarrow> 0 | Some v \<Rightarrow> v)"
  define trend_ok where "trend_ok = (close > ma50 \<and> ma20 > ma50)"
  define breakout where "breakout = (trend_ok \<and> close > r \<and> vol > volma20)"
  define pullback where "pullback = (trend_ok \<and> (if ma20 \<noteq> 0 then \<bar>close - ma20\<bar> / ma20 else 0) \<le> 2 / 100
      \<and> close \<ge> bar_open (last df))"
  define sl_b where "sl_b = (if atr14v > 0 then min l (close - 2 * atr14v) else l)"
  define sl_p where "sl_p = min l (ma20 * (98 / 100))"
  define entry where "entry = (if breakout \<or> pullback then Some close else None)"
  define sl where "sl = (if breakout then Some sl_b else if pullback then Some sl_p else None)"
  define tp1 where "tp1 = (if breakout then Some (close + (close - sl_b) * 1)
                    else if pullback then Some r else None)"
  define tp2 where "tp2 = (if breakout then Some (close + (close - sl_b) * 2)
                    else if pullback then Some (r + (r - sl_p)) else None)"
  note eq = compute_signal_eq[OF ne rl close_def vol_def ma20_def ma50_def volma20_def atr14v_def
      trend_ok_def breakout_def pullback_def sl_b_def sl_p_def entry_def sl_def tp1_def tp2_def]
  from eq assms have s: "s = \<lparr>sig_setup = (if breakout then BREAKOUT else if pullback then PULLBACK_MA20 else NONE),
          sig_trend_ok = trend_ok, sig_close = close, sig_ma20 = ma20, sig_ma50 = ma50,
          sig_resistance = r, sig_support = l, sig_volume = vol,
          sig_volma20 = volma20, sig_entry = entry, sig_sl = sl, sig_tp1 = tp1, sig_tp2 = tp2,
          sig_rr = risk_reward_of entry sl tp1 tp2,
          sig_reason = (if breakout then [TrendOK, CloseAboveResistance r, VolumeAboveAverage]
                        else if pullback then [TrendOK, NearMA20, BullishCandle] else [NoSetup]),
          sig_asof = bar_date (last df)\<rparr>" by simp
  show "pivot_high df 20 = Some (sig_resistance s)" by (simp add: s rl)
  show "pivot_low df 20 = Some (sig_support s)" by (simp add: s rl)
  show "sig_close s = bar_close (last df)" by (simp add: s close_def)
  show "sig_volume s = (case bar_volume (last df) of None \<Rightarrow> 0 | Some v \<Rightarrow> v)"
    by (simp add: s vol_def)
  show "sig_ma20 s = (case at_last (sma (map (Some \<circ> bar_close) df) 20) of
                     None \<Rightarrow> bar_close (last df) | Some v \<Rightarrow> v)"
    by (simp add: s ma20_def close_def split: option.splits)
  show "sig_ma50 s = (case at_last (sma (map (Some \<circ> bar_close) df) 50) of
                     None \<Rightarrow> bar_close (last df) | Some v \<Rightarrow> v)"
    by (simp add: s ma50_def close_def split: option.splits)
  show "sig_volma20 s = (case at_last (sma (map bar_volume df) 20) of
                        None \<Rightarrow> sig_volume s | Some v \<Rightarrow> v)"
    by (simp add: s volma20_def split: option.splits)
  show "sig_trend_ok s = (sig_close s > sig_ma50 s \<and> sig_ma20 s > sig_ma50 s)"
    by (simp add: s trend_ok_def)
  show "sig_setup s =
       (if sig_trend_ok s \<and> sig_close s > sig_resistance s \<and> sig_volume s > sig_volma20 s
        then BREAKOUT
        else if sig_trend_ok s
                \<and> (if sig_ma20 s \<noteq> 0 then \<bar>sig_close s - sig_ma20 s\<bar> / sig_ma20 s else 0) \<le> 2 / 100
                \<and> sig_close s \<ge> bar_open (last df)
        then PULLBACK_MA20 else NONE)"
    unfolding s signal.simps breakout_def[symmetric] pullback_def[symmetric] by (rule refl)
  show "sig_entry s = (if sig_setup s = NONE then None else Some (sig_close s))"
    by (simp add: s entry_def)
  show "sig_rr s = risk_reward_of (sig_entry s) (sig_sl s) (sig_tp1 s) (sig_tp2 s)"
    by (simp add: s)
qed

lemma length_dated [simp]: "length (dated bs) = length bs"
  by (simp add: dated_def)

lemma dated_nth: "i < length bs \<Longrightarrow> dated bs ! i = (bs ! i)\<lparr>bar_date := i\<rparr>"
  by (simp add: dated_def nth_enumerate_eq)

lemma last_dated:
  assumes "bs \<noteq> []"
  shows "last (dated bs) = (last bs)\<lparr>bar_date := length bs - 1\<rparr>"
proof -
  have ne: "dated bs \<noteq> []" using assms by (simp add: dated_def enumerate_eq_zip)
  have "last (dated bs) = dated bs ! (length bs - 1)" using ne by (simp add: last_conv_nth)
  also have "\<dots> = (bs ! (length bs - 1))\<lparr>bar_date := length bs - 1\<rparr>"
    using assms by (intro dated_nth) simp
  also have "bs ! (length bs - 1) = last bs" using assms by (simp add: last_conv_nth)
  finally show ?thesis .
qed

lemma set_dated_D:
  assumes "b \<in> set (dated bs)"
  shows "\<exists>b0 i. b0 \<in> set bs \<and> b = b0\<lparr>bar_date := i\<rparr>"
proof -
  from assms obtain i where "i < length bs" "b = dated bs ! i"
    by (auto simp: in_set_conv_nth)
  then show ?thesis using dated_nth[of i bs] nth_mem[of i bs] by metis
qed

lemma compute_signal_df_spike: "compute_signal df_spike = Inr sig_spike"
  by code_simp

lemma compute_signal_df_short: "compute_signal df_short = Inr sig_short"
  by code_simp


text \<open>
  C3. For a series of at least 22 bars the resistance is the highest high, and the support
  the lowest low, of the 20 bars before the latest one, that is of the positions
  \<open>len - 21, \<dots>, len - 2\<close>; for a shorter series they are the highest high and the lowest
  low of the whole series, the latest bar included. So when the series is longer than 22
  bars and the latest high is strictly above every other high, the resistance is not that
  high.
\<close>

theorem resistance_support_window:
  assumes "compute_signal df = Inr s"
  shows "(22 \<le> length df \<longrightarrow>
           sig_resistance s = Max ((\<lambda>i. bar_high (df ! i)) ` {length df - 21 ..< length df - 1})
         \<and> sig_support s = Min ((\<lambda>i. bar_low (df ! i)) ` {length df - 21 ..< length df - 1}))
       \<and> (length df < 22 \<longrightarrow>
           sig_resistance s = Max (bar_high ` set df) \<and> sig_support s = Min (bar_low ` set df))
       \<and> (22 < length df \<and> (\<forall>i. i < length df - 1 \<longrightarrow> bar_high (df ! i) < bar_high (last df)) \<longrightarrow>
           sig_resistance s \<noteq> bar_high (last df))"
proof -
  note f = compute_signal_fields[OF assms]
  let ?I = "{length df - 21 ..< length df - 1}"
  have long: "sig_resistance s = Max ((\<lambda>i. bar_high (df ! i)) ` ?I)
      \<and> sig_support s = Min ((\<lambda>i. bar_low (df ! i)) ` ?I)" if "22 \<le> length df"
    using that f by (simp add: pivot_high_eq pivot_low_eq)
  have short: "sig_resistance s = Max (bar_high ` set df) \<and> sig_support s = Min (bar_low ` set df)"
    if "length df < 22"
    using that f by (simp add: pivot_high_eq pivot_low_eq)
  have excl: "sig_resistance s \<noteq> bar_high (last df)"
    if l: "22 < length df" and hi: "\<forall>i. i < length df - 1 \<longrightarrow> bar_high (df ! i) < bar_high (last df)"
  proof -
    have ne: "?I \<noteq> {}" using l by simp
    have "Max ((\<lambda>i. bar_high (df ! i)) ` ?I) \<in> (\<lambda>i. bar_high (df ! i)) ` ?I"
      using ne by (intro Max_in) auto
    then obtain i where "i \<in> ?I" "Max ((\<lambda>i. bar_high (df ! i)) ` ?I) = bar_high (df ! i)" by auto
    then have "sig_resistance s < bar_high (last df)" using long l hi by auto
    then show ?thesis by simp
  qed
  show ?thesis using long short excl by blast
qed

theorem resistance_support_window_witness:
  "compute_signal df_spike = Inr sig_spike \<and> 22 < length df_spike
   \<and> sig_resistance sig_spike = 1 \<and> bar_high (last df_spike) = 9
   \<and> sig_resistance sig_spike \<noteq> bar_high (last df_spike)
   \<and> compute_signal df_short = Inr sig_short \<and> length df_short < 22
   \<and> sig_resistance sig_short = Max (bar_high ` set df_short)
   \<and> sig_support sig_short = Min (bar_low ` set df_short)"
proof -
  have hi: "\<forall>i. i < length df_spike - 1 \<longrightarrow> bar_high (df_spike ! i) < bar_high (last df_spike)"
    by (simp add: df_spike_def dated_nth last_dated nth_append flat_def spike_def)
  have len: "22 < length df_spike" "length df_short < 22"
    by (simp_all add: df_spike_def df_short_def)
  have lh: "bar_high (last df_spike) = 9"
    by (simp add: df_spike_def last_dated spike_def)
  have rs: "sig_resistance sig_spike = 1" by (simp add: sig_spike_def)
  show ?thesis
    using resistance_support_window [OF compute_signal_df_spike]
      resistance_support_window [OF compute_signal_df_short]
      hi len lh rs compute_signal_df_spike compute_signal_df_short
    by simp
qed


text \<open>
  C10. A series of fewer than 22 bars in which every bar has \<open>close \<le> high\<close> is never
  classified as a breakout: the resistance is then the highest high of the whole series,
  which is at least the latest close.
\<close>

theorem short_history_never_breakout:
  assumes "compute_signal df = Inr s" and "length df < 22"
    and "\<forall>b \<in> set df. bar_close b \<le> bar_high b"
  shows "sig_setup s \<noteq> BREAKOUT"
proof -
  note f = compute_signal_fields[OF assms(1)]
  have "sig_resistance s = Max (bar_high ` set df)"
    using f assms(2) by (simp add: pivot_high_eq)
  moreover have "bar_high (last df) \<le> Max (bar_high ` set df)"
    using f(1) by (intro Max_ge) auto
  moreover have "bar_close (last df) \<le> bar_high (last df)" using assms(3) f(1) by simp
  ultimately have "\<not> sig_close s > sig_resistance s" using f(4) by simp
  then show ?thesis using f(10) by (simp split: if_splits)
qed

theorem short_history_never_breakout_witness:
  "compute_signal df_short = Inr sig_short \<and> length df_short < 22
   \<and> list_all (\<lambda>b. bar_close b \<le> bar_high b) df_short
   \<and> sig_setup sig_short \<noteq> BREAKOUT"
proof -
  have inv: "\<forall>b \<in> set df_short. bar_close b \<le> bar_high b"
    by (auto simp: df_short_def flat_def spike_def dest!: set_dated_D)
  have len: "length df_short < 22" by (simp add: df_short_def)
  show ?thesis
    using short_history_never_breakout [OF compute_signal_df_short len inv] inv len
      compute_signal_df_short
    by (simp add: list_all_iff)
qed

subsection \<open>Rolling means\<close>

lemma length_rolling_mean [simp]: "length (rolling_mean n xs) = length xs"
  by (simp add: rolling_mean_def)

lemma rolling_mean_nth:
  "i < length xs \<Longrightarrow>
   rolling_mean n xs ! i = (if i + 1 < n then None else window_mean (take n (drop (i + 1 - n) xs)))"
  by (simp add: rolling_mean_def)

lemma at_last_rolling_mean:
  assumes "0 < n"
  shows "at_last (rolling_mean n xs) =
     (if length xs < n then None else window_mean (drop (length xs - n) xs))"
proof (cases "xs = []")
  case True
  then show ?thesis using assms by (simp add: rolling_mean_def at_last_def)
next
  case False
  then have ne: "rolling_mean n xs \<noteq> []" by (simp add: rolling_mean_def)
  have "at_last (rolling_mean n xs) = last (rolling_mean n xs)"
    using ne by (cases "rolling_mean n xs") (simp_all add: at_last_def)
  also have "\<dots> = rolling_mean n xs ! (length xs - 1)"
    using ne by (simp add: last_conv_nth)
  also have "\<dots> = (if length xs < n then None else window_mean (take n (drop (length xs - n) xs)))"
    using False by (subst rolling_mean_nth) (auto simp: Suc_diff_1 less_Suc_eq_le)
  finally show ?thesis by simp
qed

lemma those_map_Some [simp]: "those (map Some vs) = Some vs"
  by (induction vs) simp_all

lemma those_eq_None_iff: "those w = None \<longleftrightarrow> None \<in> set w"
  by (induction w) (auto split: option.splits)


lemma window_mean_map_Some: "window_mean (map Some vs) = Some (sum_list vs / real (length vs))"
  by (simp add: window_mean_def)

lemma window_mean_eq_None_iff: "window_mean w = None \<longleftrightarrow> None \<in> set w"
  by (simp add: window_mean_def those_eq_None_iff)

lemma at_last_sma_close:
  assumes "0 < n"
  shows "at_last (sma (map (Some \<circ> bar_close) df) n) =
     (if length df < n then None
      else Some (sum_list (map bar_close (drop (length df - n) df)) / real n))"
proof -
  have "drop (length df - n) (map (Some \<circ> bar_close) df)
      = map Some (map bar_close (drop (length df - n) df))"
    by (simp add: drop_map)
  then show ?thesis
    using assms by (simp add: sma_def at_last_rolling_mean window_mean_map_Some del: map_map)
qed

subsection \<open>The regime classifier\<close>

lemma market_regime_try_Inl_iff: "market_regime_try df = Inl e \<longleftrightarrow> df = [] \<and> e = IndexError"
  by (cases df) (auto simp: market_regime_try_def Let_def case_prod_beta)

lemma market_regime_try_df_drop: "market_regime_try df_drop = Inr reg_drop"
  by code_simp


text \<open>
  C4. Whenever the classifier computes a result from the benchmark series: the status is
  \<open>NO_TRADE_DAY\<close> if the close is below the 50-bar average and, in addition, the ATR
  ratio is at least 0.02 or the day change at most -0.02, whatever was assigned before;
  otherwise it is \<open>RISK_ON\<close> when the close and the 20-bar average are both above the
  50-bar average, \<open>RISK_OFF\<close> when the close is below the 50-bar average, and
  \<open>NEUTRAL\<close> in the remaining cases. The averages are those of the last 20 and 50
  closes, replaced by the close when the series is shorter.
\<close>

theorem regime_status_rule:
  assumes "market_regime_try df = Inr r"
  shows "\<exists>close ma20 ma50.
      market_regime (Inr df) = r
    \<and> reg_close r = Some close \<and> reg_ma20 r = Some ma20 \<and> reg_ma50 r = Some ma50
    \<and> close = bar_close (last df)
    \<and> ma20 = (if length df < 20 then close
               else sum_list (map bar_close (drop (length df - 20) df)) / 20)
    \<and> ma50 = (if length df < 50 then close
               else sum_list (map bar_close (drop (length df - 50) df)) / 50)
    \<and> reg_status r =
        (if close < ma50 \<and> (regime_atr_pct df \<ge> 2 / 100 \<or> regime_day_change df \<le> - (2 / 100))
         then NO_TRADE_DAY
         else if close > ma50 \<and> ma20 > ma50 then RISK_ON
         else if close < ma50 then RISK_OFF
         else NEUTRAL)"
proof -
  obtain b bs where df: "df = b # bs" using assms by (cases df) (auto simp: market_regime_try_def)
  define close where "close = bar_close (last df)"
  define ma20 where "ma20 = (if length df < 20 then close
               else sum_list (map bar_close (drop (length df - 20) df)) / 20)"
  define ma50 where "ma50 = (if length df < 50 then close
               else sum_list (map bar_close (drop (length df - 50) df)) / 50)"
  have m20: "(case at_last (sma (map (Some \<circ> bar_close) df) 20) of None \<Rightarrow> close | Some v \<Rightarrow> v) = ma20"
    by (simp add: at_last_sma_close ma20_def)
  have m50: "(case at_last (sma (map (Some \<circ> bar_close) df) 50) of None \<Rightarrow> close | Some v \<Rightarrow> v) = ma50"
    by (simp add: at_last_sma_close ma50_def)
  have unf: "market_regime_try df =
     (case (if close > ma50 \<and> ma20 > ma50 then (RISK_ON, [RegimeUptrend])
            else if close < ma50 then (RISK_OFF, [RegimeBelowMA50])
            else (NEUTRAL, [])) of
        (status, note) \<Rightarrow>
          (case (if close < ma50 \<and> (regime_atr_pct df \<ge> 2 / 100 \<or> regime_day_change df \<le> - (2 / 100))
                 then (NO_TRADE_DAY, [RegimeSharpDrop]) else (status, note)) of
             (status, note) \<Rightarrow>
               Inr \<lparr>reg_status = status, reg_close = Some close, reg_ma20 = Some ma20,
                    reg_ma50 = Some ma50,
                    reg_day_change_pct = Some (py_round (regime_day_change df * 100) 2),
                    reg_atr14_pct = Some (py_round (regime_atr_pct df * 100) 2),
                    reg_asof = Some (bar_date (last df)), reg_note = note,
                    reg_ticker = lit ''^JKSE''\<rparr>))"
    unfolding market_regime_try_def Let_def m20[unfolded close_def] m50[unfolded close_def]
    unfolding close_def[symmetric]
    by (subst (1) df) (simp only: list.case)
  have "reg_close r = Some close \<and> reg_ma20 r = Some ma20 \<and> reg_ma50 r = Some ma50
    \<and> reg_status r =
        (if close < ma50 \<and> (regime_atr_pct df \<ge> 2 / 100 \<or> regime_day_change df \<le> - (2 / 100))
         then NO_TRADE_DAY
         else if close > ma50 \<and> ma20 > ma50 then RISK_ON
         else if close < ma50 then RISK_OFF
         else NEUTRAL)"
    using assms unfolding unf by (auto split: if_splits)
  moreover have "market_regime (Inr df) = r" using assms by (simp add: market_regime_def)
  ultimately show ?thesis using close_def ma20_def ma50_def by blast
qed

theorem regime_status_rule_witness:
  "market_regime_try df_drop = Inr reg_drop \<and> market_regime (Inr df_drop) = reg_drop
   \<and> reg_status reg_drop = NO_TRADE_DAY
   \<and> reg_close reg_drop = Some (9 / 10) \<and> reg_ma50 reg_drop = Some (499 / 500)
   \<and> regime_day_change df_drop = - (1 / 10)"
proof -
  have dc: "regime_day_change df_drop = - (1 / 10)" by code_simp
  show ?thesis
    using regime_status_rule [OF market_regime_try_df_drop] market_regime_try_df_drop dc
    by (auto simp: reg_drop_def)
qed


text \<open>
  C5. Whatever exception the fetch of the benchmark raises, and whatever exception the
  computation on the fetched series raises, the classifier returns a result: its status
  is \<open>UNKNOWN\<close>, its close, averages, day change, ATR ratio and date are \<^verbatim>\<open>None\<close>, and
  its note carries the exception. The classifier has no other outcome than a result.
\<close>

theorem regime_degrades_to_unknown:
  "(fetched = Inl e \<or> (\<exists>df. fetched = Inr df \<and> market_regime_try df = Inl e)) \<longrightarrow>
   market_regime fetched =
     \<lparr>reg_status = UNKNOWN, reg_close = None, reg_ma20 = None, reg_ma50 = None,
      reg_day_change_pct = None, reg_atr14_pct = None, reg_asof = None,
      reg_note = [RegimeUnavailable e], reg_ticker = lit ''^JKSE''\<rparr>"
proof
  assume "fetched = Inl e \<or> (\<exists>df. fetched = Inr df \<and> market_regime_try df = Inl e)"
  then have "(case fetched of Inl e \<Rightarrow> Inl e | Inr df \<Rightarrow> market_regime_try df) = Inl e"
    by auto
  then show "market_regime fetched =
     \<lparr>reg_status = UNKNOWN, reg_close = None, reg_ma20 = None, reg_ma50 = None,
      reg_day_change_pct = None, reg_atr14_pct = None, reg_asof = None,
      reg_note = [RegimeUnavailable e], reg_ticker = lit ''^JKSE''\<rparr>"
    by (simp add: market_regime_def)
qed

theorem regime_degrades_to_unknown_witness:
  "market_regime (Inl (HTTPException 404 (lit ''Data kosong untuk ticker ^JKSE''))) =
     \<lparr>reg_status = UNKNOWN, reg_close = None, reg_ma20 = None, reg_ma50 = None,
      reg_day_change_pct = None, reg_atr14_pct = None, reg_asof = None,
      reg_note = [RegimeUnavailable (HTTPException 404 (lit ''Data kosong untuk ticker ^JKSE''))],
      reg_ticker = lit ''^JKSE''\<rparr>
   \<and> market_regime_try [] = Inl IndexError
   \<and> market_regime (Inr []) =
     \<lparr>reg_status = UNKNOWN, reg_close = None, reg_ma20 = None, reg_ma50 = None,
      reg_day_change_pct = None, reg_atr14_pct = None, reg_asof = None,
      reg_note = [RegimeUnavailable IndexError], reg_ticker = lit ''^JKSE''\<rparr>"
proof -
  have e: "market_regime_try [] = Inl IndexError" by (simp add: market_regime_try_def)
  show ?thesis
    using regime_degrades_to_unknown
        [of "Inl (HTTPException 404 (lit ''Data kosong untuk ticker ^JKSE''))"
            "HTTPException 404 (lit ''Data kosong untuk ticker ^JKSE'')"]
      regime_degrades_to_unknown [of "Inr []" IndexError] e
    by simp
qed

subsection \<open>The screener: ranking\<close>

lemma py_sort_desc_sorted: "sorted_wrt (\<lambda>a b. key a \<ge> key b) (py_sort_desc key xs)"
proof -
  have "sorted (map (\<lambda>x. - key x) (sort_key (\<lambda>x. - key x) xs))" by (rule sorted_sort_key)
  then show ?thesis by (simp add: py_sort_desc_def sorted_map)
qed

lemma py_sort_desc_stable:
  "filter (\<lambda>x. key x = k) (py_sort_desc key xs) = filter (\<lambda>x. key x = k) xs"
  using sort_key_stable [of "\<lambda>x. - key x" "- k" xs] by (simp add: py_sort_desc_def)

lemma py_sort_desc_mset: "mset (py_sort_desc key xs) = mset xs"
  by (simp add: py_sort_desc_def)

lemma filter_take_prefix: "prefix (filter P (take n ys)) (filter P ys)"
proof -
  have "filter P ys = filter P (take n ys) @ filter P (drop n ys)"
    by (metis append_take_drop_id filter_append)
  then show ?thesis by (metis prefixI)
qed

lemma screener_loop_map_filter:
  "screener_loop isspace upper tickers =
     List.map_filter (\<lambda>(t, fetched). screen_ticker isspace upper t fetched) tickers"
  by (induction tickers) (auto simp: List.map_filter_simps split: option.splits)

lemma api_screener_top:
  assumes "api_screener isspace upper file benchmark universe = Inr resp"
  shows "resp_top resp = screener_top (screener_loop isspace upper file)"
    and "resp_count resp = length (screener_loop isspace upper file)"
    and "resp_market_regime resp = market_regime benchmark"
  using assms by (auto simp: api_screener_def load_universe_def Let_def split: if_splits)


text \<open>
  C9. For every list of result rows, the returned list is in descending order of score,
  rows of equal score stand in it in the order they had in the list (which is the order of
  their tickers in the universe, see \<open>screener_loop_map_filter\<close>), and it consists of the
  first 25 rows of the sorted list, or of all rows when there are fewer.
\<close>

theorem screener_top_sorted_stable:
  "sorted_wrt (\<lambda>a b. row_score a \<ge> row_score b) (screener_top results)
   \<and> (\<forall>k. prefix (filter (\<lambda>r. row_score r = k) (screener_top results))
                   (filter (\<lambda>r. row_score r = k) results))
   \<and> length (screener_top results) = min 25 (length results)
   \<and> (\<exists>full. screener_top results = take 25 full
         \<and> mset full = mset results
         \<and> sorted_wrt (\<lambda>a b. row_score a \<ge> row_score b) full
         \<and> (\<forall>k. filter (\<lambda>r. row_score r = k) full = filter (\<lambda>r. row_score r = k) results))"
proof -
  let ?full = "py_sort_desc row_score results"
  have s: "sorted_wrt (\<lambda>a b. row_score a \<ge> row_score b) ?full" by (rule py_sort_desc_sorted)
  have st: "\<forall>k. filter (\<lambda>r. row_score r = k) ?full = filter (\<lambda>r. row_score r = k) results"
    by (simp add: py_sort_desc_stable)
  have m: "mset ?full = mset results" by (rule py_sort_desc_mset)
  have 1: "sorted_wrt (\<lambda>a b. row_score a \<ge> row_score b) (screener_top results)"
    unfolding screener_top_def using s by (rule sorted_wrt_take)
  have 2: "\<forall>k. prefix (filter (\<lambda>r. row_score r = k) (screener_top results))
                   (filter (\<lambda>r. row_score r = k) results)"
    unfolding screener_top_def using filter_take_prefix [of _ 25 ?full] st by metis
  have 3: "length (screener_top results) = min 25 (length results)"
    by (simp add: screener_top_def py_sort_desc_def min.commute)
  have 4: "\<exists>full. screener_top results = take 25 full
         \<and> mset full = mset results
         \<and> sorted_wrt (\<lambda>a b. row_score a \<ge> row_score b) full
         \<and> (\<forall>k. filter (\<lambda>r. row_score r = k) full = filter (\<lambda>r. row_score r = k) results)"
    using s st m unfolding screener_top_def by blast
  show ?thesis using 1 2 3 4 by blast
qed

subsection \<open>The relative-strength value\<close>

lemma window_complete_iff:
  "window_complete s i \<longleftrightarrow> 14 \<le> i \<and> (\<forall>j. i - 14 \<le> j \<and> j \<le> i \<longrightarrow> s ! j \<noteq> None)"
proof -
  have "set [i - 14..<i + 1] = {j. i - 14 \<le> j \<and> j \<le> i}"
    by (auto simp del: upt_Suc)
  then show ?thesis by (simp add: window_complete_def list_all_iff del: upt_Suc)
qed

lemma fsub_simps [simp]:
  "fsub (Some x) (Some y) = Some (x - y)" "fsub None b = None" "fsub a None = None"
  by (simp_all add: fsub_def split: option.splits)

lemma length_diff [simp]: "length (diff xs) = length xs"
  by (cases xs) (simp_all add: diff_def)

lemma diff_nth:
  assumes "j < length xs"
  shows "diff xs ! j = (if j = 0 then None else fsub (xs ! j) (xs ! (j - 1)))"
proof (cases xs)
  case Nil
  with assms show ?thesis by simp
next
  case (Cons x rest)
  show ?thesis
  proof (cases j)
    case 0
    then show ?thesis by (simp add: Cons diff_def)
  next
    case (Suc k)
    then have "k < length rest" using assms Cons by simp
    then show ?thesis using Suc Cons by (simp add: diff_def)
  qed
qed

lemma take_drop_map_nth:
  assumes "k + n \<le> length xs"
  shows "take n (drop k xs) = map (\<lambda>j. xs ! j) [k..<k + n]"
proof (rule nth_equalityI)
  show "length (take n (drop k xs)) = length (map (\<lambda>j. xs ! j) [k..<k + n])"
    using assms by simp
next
  fix m assume "m < length (take n (drop k xs))"
  then have "m < n" by simp
  then show "take n (drop k xs) ! m = map (\<lambda>j. xs ! j) [k..<k + n] ! m"
    using assms by simp
qed

lemma rolling_clip:
  assumes i: "i < length s"
  shows "rolling_mean 14 (map (map_option f) (diff s)) ! i =
     (if window_complete s i
      then Some (sum_list (map (\<lambda>j. f (val (s ! j) - val (s ! (j - 1)))) [i - 13..<i + 1]) / 14)
      else None)"
proof (cases "i < 13")
  case True
  then show ?thesis using i by (simp add: rolling_mean_nth window_complete_iff)
next
  case False
  then have i13: "13 \<le> i" by simp
  define col where "col = map (map_option f) (diff s)"
  have lencol: "length col = length s" by (simp add: col_def)
  have colnth: "col ! j = map_option f (diff s ! j)" if "j < length s" for j
    using that by (simp add: col_def)
  have w: "take 14 (drop (i - 13) col) = map (\<lambda>j. col ! j) [i - 13..<i + 1]"
  proof -
    have e: "i - 13 + 14 = i + 1" using i13 by simp
    have "i - 13 + 14 \<le> length col" using i i13 lencol by simp
    from take_drop_map_nth[OF this] show ?thesis unfolding e .
  qed
  have rm: "rolling_mean 14 col ! i = window_mean (map (\<lambda>j. col ! j) [i - 13..<i + 1])"
    using i i13 lencol by (simp add: rolling_mean_nth w)
  show ?thesis
  proof (cases "window_complete s i")
    case True
    then have i14: "14 \<le> i" and all: "\<And>j. i - 14 \<le> j \<Longrightarrow> j \<le> i \<Longrightarrow> s ! j \<noteq> None"
      by (auto simp: window_complete_iff)
    have "map (\<lambda>j. col ! j) [i - 13..<i + 1]
        = map (\<lambda>j. Some (f (val (s ! j) - val (s ! (j - 1))))) [i - 13..<i + 1]"
    proof (rule map_cong[OF refl])
      fix j assume "j \<in> set [i - 13..<i + 1]"
      then have j: "i - 13 \<le> j" "j \<le> i" by auto
      then have j0: "j \<noteq> 0" "j < length s" using i14 i by auto
      have "s ! j \<noteq> None" using j i14 by (intro all) auto
      moreover have "s ! (j - 1) \<noteq> None" using j i14 by (intro all) auto
      ultimately obtain a b where ab: "s ! j = Some a" "s ! (j - 1) = Some b" by auto
      show "col ! j = Some (f (val (s ! j) - val (s ! (j - 1))))"
        using j0 ab by (simp add: colnth diff_nth val_def)
    qed
    then have "map (\<lambda>j. col ! j) [i - 13..<i + 1]
        = map Some (map (\<lambda>j. f (val (s ! j) - val (s ! (j - 1)))) [i - 13..<i + 1])" by simp
    then have "rolling_mean 14 col ! i
        = Some (sum_list (map (\<lambda>j. f (val (s ! j) - val (s ! (j - 1)))) [i - 13..<i + 1]) / 14)"
      unfolding rm using i13 by (simp only: window_mean_map_Some) simp
    then show ?thesis using True by (simp add: col_def)
  next
    case False
    have "\<exists>j. i - 13 \<le> j \<and> j \<le> i \<and> col ! j = None"
    proof (cases "i = 13")
      case True
      have "0 < length s" using i by auto
      then have "col ! 0 = None" by (simp add: colnth diff_nth)
      then show ?thesis using True by (intro exI[of _ 0]) simp
    next
      case False
      then have i14: "14 \<le> i" using i13 by simp
      with \<open>\<not> window_complete s i\<close> obtain j where j: "i - 14 \<le> j" "j \<le> i" "s ! j = None"
        by (auto simp: window_complete_iff)
      show ?thesis
      proof (cases "j = i - 14")
        case True
        have "col ! (i - 13) = None"
          using i i14 j(3) True by (simp add: colnth diff_nth)
        then show ?thesis by (intro exI[of _ "i - 13"]) simp
      next
        case False
        then have "i - 13 \<le> j" using j(1) by simp
        moreover have "col ! j = None"
          using i j by (simp add: colnth diff_nth)
        ultimately show ?thesis using j(2) by blast
      qed
    qed
    then obtain j where j: "i - 13 \<le> j" "j \<le> i" "col ! j = None" by blast
    then have "j \<in> set [i - 13..<i + 1]" by (simp del: upt_Suc)
    then have "col ! j \<in> set (map (\<lambda>j. col ! j) [i - 13..<i + 1])" unfolding set_map by (rule imageI)
    then have "None \<in> set (map (\<lambda>j. col ! j) [i - 13..<i + 1])" using j(3) by simp
    then have "rolling_mean 14 col ! i = None"
      unfolding rm by (simp only: window_mean_eq_None_iff)
    then show ?thesis using False by (simp add: col_def)
  qed
qed

lemma rsi_up_nth:
  assumes "i < length s"
  shows "rolling_mean 14 (map (map_option (\<lambda>d. max d 0)) (diff s)) ! i =
     (if window_complete s i then Some (spec_up s i) else None)"
proof -
  have "spec_gain s = (\<lambda>j. max (val (s ! j) - val (s ! (j - 1))) 0)"
    by (auto simp: spec_gain_def fun_eq_iff)
  then show ?thesis
    unfolding spec_up_def by (simp only: rolling_clip[OF assms])
qed

lemma rsi_down_nth:
  assumes "i < length s"
  shows "rolling_mean 14 (map (map_option (\<lambda>d. - min d 0)) (diff s)) ! i =
     (if window_complete s i then Some (spec_down s i) else None)"
proof -
  have "spec_loss s = (\<lambda>j. - min (val (s ! j) - val (s ! (j - 1))) 0)"
    by (auto simp: spec_loss_def fun_eq_iff)
  then show ?thesis
    unfolding spec_down_def by (simp only: rolling_clip[OF assms])
qed

lemma spec_up_nonneg: "0 \<le> spec_up s i"
  unfolding spec_up_def by (intro divide_nonneg_pos sum_list_nonneg) (auto simp: spec_gain_def)

lemma spec_down_nonneg: "0 \<le> spec_down s i"
  unfolding spec_down_def by (intro divide_nonneg_pos sum_list_nonneg) (auto simp: spec_loss_def)

lemma rsi_nth:
  assumes "i < length s"
  shows "rsi s 14 ! i =
     (if window_complete s i \<and> spec_down s i \<noteq> 0
      then Some (100 - 100 / (1 + spec_up s i / spec_down s i)) else None)"
  using assms by (simp add: rsi_def Let_def rsi_up_nth rsi_down_nth)

lemma rsi_value_range:
  assumes "0 \<le> u" and "0 < d"
  shows "0 \<le> 100 - 100 / (1 + u / d)" and "100 - 100 / (1 + u / d) \<le> (100::real)"
proof -
  have "1 \<le> 1 + u / d" using assms by simp
  then have "100 / (1 + u / d) \<le> 100 / 1" by (intro divide_left_mono) auto
  then show "0 \<le> 100 - 100 / (1 + u / d)" by simp
  have "0 \<le> 100 / (1 + u / d)" using \<open>1 \<le> 1 + u / d\<close> by simp
  then show "100 - 100 / (1 + u / d) \<le> (100::real)" by simp
qed


text \<open>
  C6. At every position of every close series, the 14-period relative-strength value is
  undefined exactly when the window is incomplete or the mean loss \<open>down\<close> is 0; where it
  is defined it equals \<open>100 - 100 / (1 + up / down)\<close> and lies between 0 and 100.
\<close>

theorem rsi_defined_range:
  assumes "i < length s"
  shows "(rsi s 14 ! i = None \<longleftrightarrow> \<not> window_complete s i \<or> spec_down s i = 0)
       \<and> (\<forall>r. rsi s 14 ! i = Some r \<longrightarrow>
             r = 100 - 100 / (1 + spec_up s i / spec_down s i) \<and> 0 \<le> r \<and> r \<le> 100)"
proof -
  have 1: "rsi s 14 ! i = None \<longleftrightarrow> \<not> window_complete s i \<or> spec_down s i = 0"
    by (simp add: rsi_nth[OF assms])
  have 2: "r = 100 - 100 / (1 + spec_up s i / spec_down s i) \<and> 0 \<le> r \<and> r \<le> 100"
    if "rsi s 14 ! i = Some r" for r
  proof -
    from that have d0: "spec_down s i \<noteq> 0"
      and r: "r = 100 - 100 / (1 + spec_up s i / spec_down s i)"
      by (auto simp: rsi_nth[OF assms] split: if_splits)
    have "0 < spec_down s i" using d0 spec_down_nonneg[of s i] by simp
    from rsi_value_range[OF spec_up_nonneg this] r show ?thesis by simp
  qed
  show ?thesis using 1 2 by blast
qed

theorem rsi_defined_range_witness:
  "14 < length closes15 \<and> window_complete closes15 14
   \<and> spec_up closes15 14 = 13 / 14 \<and> spec_down closes15 14 = 1 / 2
   \<and> rsi closes15 14 ! 14 = Some 65
   \<and> rsi closes15 14 ! 13 = None \<and> \<not> window_complete closes15 13
   \<and> 15 < length rising16 \<and> window_complete rising16 15 \<and> spec_down rising16 15 = 0
   \<and> rsi rising16 14 ! 15 = None"
proof -
  have l: "14 < length closes15" "13 < length closes15" "15 < length rising16"
    by (simp_all add: closes15_def rising16_def)
  have w: "window_complete closes15 14" "\<not> window_complete closes15 13"
    "window_complete rising16 15"
    by code_simp+
  have v: "spec_up closes15 14 = 13 / 14" "spec_down closes15 14 = 1 / 2"
    "spec_down rising16 15 = 0"
    by code_simp+
  have r: "rsi closes15 14 ! 14 = Some 65" by code_simp
  show ?thesis
    using rsi_defined_range [OF l(1)] rsi_defined_range [OF l(2)] rsi_defined_range [OF l(3)]
      l w v r
    by simp
qed

subsection \<open>The screener: score\<close>




lemma compute_signal_df_breakout: "compute_signal df_breakout = Inr sig_breakout"
  by code_simp






subsection \<open>The risk-reward block\<close>

text \<open>
  C1 asks for a risk-reward block whenever entry and stop-loss are set and the entry is
  above the stop-loss. On the series \<open>df_sl0\<close> (all prices positive, a breakout at 15 with
  a 14-bar average true range of 7.5) the entry is 15 and the stop-loss is
  \<open>15 - 2 * 7.5 = 0\<close>, yet the block is missing: the guard
  \<^verbatim>\<open>entry and sl and entry > sl\<close> takes the stop-loss \<^verbatim>\<open>0.0\<close> for unset.
\<close>

theorem risk_reward_missing_at_zero_stop:
  "compute_signal df_sl0 = Inr sig_sl0
   \<and> sig_setup sig_sl0 = BREAKOUT
   \<and> sig_entry sig_sl0 = Some 15 \<and> sig_sl sig_sl0 = Some 0
   \<and> (\<exists>e sl. sig_entry sig_sl0 = Some e \<and> sig_sl sig_sl0 = Some sl \<and> e > sl)
   \<and> sig_rr sig_sl0 = None"
proof -
  have "compute_signal df_sl0 = Inr sig_sl0" by code_simp
  then show ?thesis by (simp add: sig_sl0_def)
qed

subsection \<open>Further properties\<close>

text \<open>
  X1. The risk-reward block the classifier computes: it is present exactly when entry and
  stop-loss are set, neither is 0 and the entry is above the stop-loss; then
  \<open>risk_per_share = entry - sl\<close>, and each R-multiple is \<open>(tp - entry) / (entry - sl)\<close>
  when its target is set and not 0, and \<^verbatim>\<open>None\<close> otherwise.
\<close>

theorem risk_reward_block_rule:
  assumes "compute_signal df = Inr s"
  shows "sig_rr s =
     (case (sig_entry s, sig_sl s) of
        (Some e, Some sl) \<Rightarrow>
          if e \<noteq> 0 \<and> sl \<noteq> 0 \<and> e > sl
          then Some \<lparr>risk_per_share = e - sl,
                     r_multiple_tp1 = (case sig_tp1 s of None \<Rightarrow> None
                        | Some t \<Rightarrow> if t \<noteq> 0 then Some ((t - e) / (e - sl)) else None),
                     r_multiple_tp2 = (case sig_tp2 s of None \<Rightarrow> None
                        | Some t \<Rightarrow> if t \<noteq> 0 then Some ((t - e) / (e - sl)) else None)\<rparr>
          else None
      | _ \<Rightarrow> None)"
  using compute_signal_fields(12)[OF assms]
  by (simp add: risk_reward_of_def r_multiple_def truthy_def split: option.splits)

theorem risk_reward_block_rule_witness:
  "compute_signal df_breakout = Inr sig_breakout
   \<and> sig_entry sig_breakout = Some 2 \<and> sig_sl sig_breakout = Some 1
   \<and> sig_rr sig_breakout
       = Some \<lparr>risk_per_share = 1, r_multiple_tp1 = Some 1, r_multiple_tp2 = Some 2\<rparr>"
  using risk_reward_block_rule [OF compute_signal_df_breakout] compute_signal_df_breakout
  by (simp add: sig_breakout_def)

text \<open>
  X2. The classifier raises on the empty series only, and then \<^verbatim>\<open>IndexError\<close>; on every
  other series it returns a result.
\<close>

theorem compute_signal_raises_on_empty_only:
  "compute_signal [] = Inl IndexError \<and> ((\<exists>s. compute_signal df = Inr s) \<longleftrightarrow> df \<noteq> [])"
proof -
  have "(\<exists>s. compute_signal df = Inr s) \<longleftrightarrow> \<not> (\<exists>e. compute_signal df = Inl e)"
    by (cases "compute_signal df") auto
  then show ?thesis by (simp add: compute_signal_Inl_iff) (simp add: compute_signal_def)
qed

lemma window_mean_replicate:
  assumes "0 < n"
  shows "window_mean (replicate n (Some c)) = Some c"
proof -
  have "replicate n (Some c) = map Some (replicate n c)" by simp
  then have "window_mean (replicate n (Some c)) = Some (sum_list (replicate n c) / real n)"
    by (simp only: window_mean_map_Some length_replicate)
  then show ?thesis using assms by (simp add: sum_list_replicate)
qed


text \<open>
  X3. The moving average over \<open>n\<close> values of a constant series is undefined at the first
  \<open>n - 1\<close> positions and equals the constant from there on.
\<close>

theorem sma_constant:
  assumes "0 < n" and "i < m"
  shows "sma (replicate m (Some c)) n ! i = (if i + 1 < n then None else Some c)"
proof (cases "i + 1 < n")
  case True
  then show ?thesis using assms by (simp add: sma_def rolling_mean_nth)
next
  case False
  then have "take n (drop (i + 1 - n) (replicate m (Some c))) = replicate n (Some c)"
    using assms by (simp add: min_def)
  then show ?thesis
    using False assms by (simp add: sma_def rolling_mean_nth window_mean_replicate)
qed

theorem sma_constant_witness:
  "sma (replicate 25 (Some 7)) 20 ! 18 = None \<and> sma (replicate 25 (Some 7)) 20 ! 19 = Some 7
   \<and> sma (replicate 25 (Some 7)) 20 ! 24 = Some 7"
  using sma_constant [of 20 18 25 7] sma_constant [of 20 19 25 7] sma_constant [of 20 24 25 7]
  by simp

lemma sum_list_const:
  fixes c :: real
  assumes "\<forall>x \<in> set xs. f x = c"
  shows "sum_list (map f xs) = real (length xs) * c"
  using assms by (induction xs) (simp_all add: algebra_simps)


text \<open>
  X4. On a series in which every close is the same the trend test fails (the close is not
  above its 50-bar average), the setup is \<open>NONE\<close>, and entry and risk-reward block are
  \<^verbatim>\<open>None\<close>.
\<close>

theorem flat_series_no_setup:
  assumes "compute_signal df = Inr s" and "\<forall>b \<in> set df. bar_close b = c"
  shows "\<not> sig_trend_ok s \<and> sig_setup s = NONE \<and> sig_entry s = None \<and> sig_rr s = None"
proof -
  note f = compute_signal_fields[OF assms(1)]
  have cl: "sig_close s = c" using f(1,4) assms(2) by simp
  have "sig_ma50 s = c"
  proof (cases "length df < 50")
    case True
    then show ?thesis using f(7) assms(2) f(1) by (simp add: at_last_sma_close)
  next
    case False
    have "\<forall>b \<in> set (drop (length df - 50) df). bar_close b = c"
      using assms(2) by (auto dest: in_set_dropD)
    from sum_list_const[OF this] have "sum_list (map bar_close (drop (length df - 50) df)) = 50 * c"
      using False by simp
    then show ?thesis using False f(7) by (simp add: at_last_sma_close)
  qed
  then have t: "\<not> sig_trend_ok s" using f(9) cl by simp
  then have "sig_setup s = NONE" using f(10) by simp
  then show ?thesis using t f(11) f(12) by (simp add: risk_reward_of_def)
qed

theorem flat_series_no_setup_witness:
  "compute_signal df_flat = Inr
     \<lparr>sig_setup = NONE, sig_trend_ok = False, sig_close = 1, sig_ma20 = 1, sig_ma50 = 1,
      sig_resistance = 1, sig_support = 1, sig_volume = 1, sig_volma20 = 1,
      sig_entry = None, sig_sl = None, sig_tp1 = None, sig_tp2 = None, sig_rr = None,
      sig_reason = [NoSetup], sig_asof = 59\<rparr>
   \<and> list_all (\<lambda>b. bar_close b = 1) df_flat"
proof -
  have ev: "compute_signal df_flat = Inr
     \<lparr>sig_setup = NONE, sig_trend_ok = False, sig_close = 1, sig_ma20 = 1, sig_ma50 = 1,
      sig_resistance = 1, sig_support = 1, sig_volume = 1, sig_volma20 = 1,
      sig_entry = None, sig_sl = None, sig_tp1 = None, sig_tp2 = None, sig_rr = None,
      sig_reason = [NoSetup], sig_asof = 59\<rparr>"
    by code_simp
  have all: "\<forall>b \<in> set df_flat. bar_close b = 1"
    by (auto simp: df_flat_def flat_def dest!: set_dated_D)
  show ?thesis using flat_series_no_setup [OF ev all] ev all by (simp add: list_all_iff)
qed

text \<open>
  X5. The screener drops a ticker exactly when its fetch raised or returned an empty frame;
  the rows it keeps are those of the other tickers, in the order of the universe.
\<close>

theorem screener_drops_failures:
  "(screen_ticker isspace upper t fetched = None \<longleftrightarrow> isl fetched \<or> fetched = Inr [])
   \<and> map row_ticker (screener_loop isspace upper tickers)
       = map (\<lambda>p. to_jk_ticker isspace upper (fst p))
           (filter (\<lambda>p. \<not> isl (snd p) \<and> snd p \<noteq> Inr []) tickers)"
proof -
  have 1: "screen_ticker isspace upper t fetched = None \<longleftrightarrow> isl fetched \<or> fetched = Inr []"
    for t fetched
  proof (cases fetched)
    case (Inl e)
    then show ?thesis by (simp add: screen_ticker_def)
  next
    case (Inr df)
    show ?thesis
    proof (cases "compute_signal df")
      case (Inl e)
      then have "df = []" using compute_signal_Inl_iff[of df] by blast
      then show ?thesis using Inl Inr by (simp add: screen_ticker_def)
    next
      case sg: (Inr sg)
      then have "df \<noteq> []" using compute_signal_Inl_iff[of df] by auto
      then show ?thesis using sg Inr by (simp add: screen_ticker_def)
    qed
  qed
  have tk: "row_ticker r = to_jk_ticker isspace upper t"
    if "screen_ticker isspace upper t fetched = Some r" for t fetched r
  proof (cases fetched)
    case (Inl e)
    then show ?thesis using that by (simp add: screen_ticker_def)
  next
    case (Inr df)
    then show ?thesis using that
      by (cases "compute_signal df") (auto simp: screen_ticker_def)
  qed
  have 2: "map row_ticker (screener_loop isspace upper tickers)
       = map (\<lambda>p. to_jk_ticker isspace upper (fst p))
           (filter (\<lambda>p. \<not> isl (snd p) \<and> snd p \<noteq> Inr []) tickers)"
  proof (induction tickers)
    case Nil
    show ?case by simp
  next
    case (Cons p rest)
    obtain t f where p: "p = (t, f)" by (cases p)
    show ?case
    proof (cases "screen_ticker isspace upper t f")
      case None
      then have "isl f \<or> f = Inr []" using 1[of t f] by simp
      then show ?thesis using Cons None unfolding p by auto
    next
      case (Some r)
      then have "\<not> (isl f \<or> f = Inr [])" using 1[of t f] by simp
      then show ?thesis using Cons Some tk[OF Some] unfolding p by simp
    qed
  qed
  show ?thesis by (rule conjI) (rule 1, rule 2)
qed

end
